theory Spec2Isabelle
  imports Main "HOL-Library.Word" "HOL-Library.Monad_Syntax"
begin

section \<open>Wisol.cpp: the SIGFOX driver for the Wisol WSSFM10R modem\<close>

text \<open>
  The driver is Arduino code. The widths are those of the AVR boards it is written for:
  \<open>char\<close> and \<open>uint8_t\<close> are 8 bits, \<open>int\<close> is 16 bits, \<open>long\<close>, \<open>float\<close> and
  \<open>double\<close> are 32 bits, and objects are stored least significant byte first.
  An Arduino \<open>String\<close> is a \<open>string\<close>, a C \<open>char\<close> is a \<open>char\<close>.
\<close>

type_synonym byte = "8 word"
type_synonym ulong = "32 word"

subsection \<open>What the driver prints and what it does to the serial port\<close>

text \<open>
  \<open>echoPort\<close> is a write-only sink. The model keeps the calls made on it, in order:
  a line written by one of the macros \<open>log1\<close> .. \<open>log4\<close> (its pieces concatenated), or a
  call of \<open>logBuffer\<close> with its arguments (the rendering of the buffer is not modelled).
\<close>

datatype echo_item =
    Println string
  | LogBuffer string string "byte list" byte

text \<open>The calls made on \<open>serialPort\<close>, in order.\<close>

datatype serial_op = Begin nat | Flush | Listen | Write byte | End

fun written :: "serial_op list \<Rightarrow> byte list" where
  "written [] = []"
| "written (Write b # ops) = b # written ops"
| "written (_ # ops) = written ops"

subsection \<open>Hex encoding\<close>

text \<open>
  \<open>String(b, 16)\<close> of the Arduino core formats an \<open>unsigned char\<close> with \<open>utoa\<close> in
  base 16: lowercase digits, most significant first, no leading zero, \<open>"0"\<close> for zero.
\<close>

definition utoa_digit :: "nat \<Rightarrow> char" where
  "utoa_digit d = (if d < 10 then char_of (48 + d) else char_of (97 + (d - 10)))"

fun utoa16 :: "nat \<Rightarrow> string" where
  "utoa16 n = (if n < 16 then [utoa_digit n] else utoa16 (n div 16) @ [utoa_digit (n mod 16)])"

declare utoa16.simps [simp del]

definition String_base16 :: "byte \<Rightarrow> string" where
  "String_base16 b = utoa16 (unat b)"

text \<open>
  The body shared by every \<open>toHex\<close>:
  \<^verbatim>\<open>if (b[j] <= 0xF) bytes.concat('0'); bytes.concat(String(b[j], 16));\<close>
\<close>

definition concat_hex :: "string \<Rightarrow> byte \<Rightarrow> string" where
  "concat_hex bytes b =
     (let bytes1 = (if b \<le> 0xF then bytes @ ''0'' else bytes)
      in bytes1 @ String_base16 b)"

text \<open>The loop \<^verbatim>\<open>for (int j = 0; j < n; j++)\<close> over the bytes \<open>b[0], b[1], ...\<close> of an object.\<close>

fun toHex_scan :: "nat \<Rightarrow> byte list \<Rightarrow> string \<Rightarrow> string" where
  "toHex_scan 0 b bytes = bytes"
| "toHex_scan (Suc n) [] bytes = bytes"
| "toHex_scan (Suc n) (x # b) bytes = toHex_scan n b (concat_hex bytes x)"

text \<open>The bytes of a 16-bit and of a 32-bit object in memory, lowest address first.\<close>

definition mem16 :: "16 word \<Rightarrow> byte list" where
  "mem16 v = [ucast v, ucast (drop_bit 8 v)]"

definition mem32 :: "32 word \<Rightarrow> byte list" where
  "mem32 v = [ucast v, ucast (drop_bit 8 v), ucast (drop_bit 16 v), ucast (drop_bit 24 v)]"

definition toHex_int :: "16 word \<Rightarrow> string" where
  "toHex_int i = toHex_scan 2 (mem16 i) []"

definition toHex_unsigned_int :: "16 word \<Rightarrow> string" where
  "toHex_unsigned_int ui = toHex_scan 2 (mem16 ui) []"

definition toHex_long :: "32 word \<Rightarrow> string" where
  "toHex_long l = toHex_scan 4 (mem32 l) []"

definition toHex_unsigned_long :: "32 word \<Rightarrow> string" where
  "toHex_unsigned_long ul = toHex_scan 4 (mem32 ul) []"

text \<open>A \<open>float\<close> and a \<open>double\<close> are given by their 32-bit pattern; only its bytes are read.\<close>

definition toHex_float :: "32 word \<Rightarrow> string" where
  "toHex_float f = toHex_scan 4 (mem32 f) []"

definition toHex_double :: "32 word \<Rightarrow> string" where
  "toHex_double d = toHex_scan 4 (mem32 d) []"

definition toHex_char :: "char \<Rightarrow> string" where
  "toHex_char c = concat_hex [] (of_char c)"

text \<open>
  \<open>toHex(char *c, int length)\<close>: the buffer is the list of its bytes; a \<open>length\<close> beyond
  the buffer reads outside it, which is \<open>None\<close> here.
\<close>

definition toHex_buf :: "byte list \<Rightarrow> int \<Rightarrow> string option" where
  "toHex_buf c len =
     (if int (length c) < len then None else Some (toHex_scan (nat len) c []))"

subsection \<open>Hex decoding\<close>

text \<open>The value of a C \<open>char\<close> in a comparison: \<open>char\<close> is signed on AVR.\<close>

definition char_val :: "char \<Rightarrow> int" where
  "char_val ch = (if (of_char ch :: nat) < 128 then int (of_char ch) else int (of_char ch) - 256)"

text \<open>
  \<open>hexDigitToDecimal\<close> returns the digit; the second component is what it prints on
  \<open>echoPort\<close>. \<^verbatim>\<open>(uint8_t) ch - '0'\<close> is computed in \<open>int\<close> and converted to the
  \<open>uint8_t\<close> result.
\<close>

definition hexDigitToDecimal :: "char \<Rightarrow> byte \<times> echo_item list" where
  "hexDigitToDecimal ch =
     (if char_val ch \<ge> 48 \<and> char_val ch \<le> 57
        then (word_of_int (int (of_char ch) - 48), [])
      else if char_val ch \<ge> 97 \<and> char_val ch \<le> 122
        then (word_of_int (int (of_char ch) - 97 + 10), [])
      else if char_val ch \<ge> 65 \<and> char_val ch \<le> 90
        then (word_of_int (int (of_char ch) - 65 + 10), [])
      else (0, [Println ('' - Wisol.hexDigitToDecimal: Error: Invalid hex digit '' @ [ch])]))"

subsection \<open>The driver object, the file's statics and the environment\<close>

text \<open>
  The constants \<open>WISOL_COMMAND_TIMEOUT\<close> and \<open>SEND_DELAY\<close> come from SIGFOX.h, which is
  not among the sources: they are parameters. \<open>WISOL_COMMAND_TIMEOUT\<close> is the value the
  \<open>int timeout\<close> parameter of \<open>sendBuffer\<close> receives, \<open>SEND_DELAY\<close> the value compared
  with the \<open>unsigned long\<close> elapsed time.
\<close>

record SIGFOX_h =
  WISOL_COMMAND_TIMEOUT :: int
  SEND_DELAY :: ulong

text \<open>The data members of class \<open>Wisol\<close> that the functions below read or write.\<close>

record Wisol =
  country :: int
  useEmulator :: bool
  device :: string
  lastSend :: ulong

text \<open>
  Everything outside the object. \<open>clock\<close>, \<open>avail\<close> and \<open>rxq\<close> are what the successive
  calls of \<open>millis()\<close>, \<open>serialPort->available()\<close> and \<open>serialPort->read()\<close> will return
  (nothing is assumed about them; \<open>delay\<close> shows only in the clock); \<open>serialOps\<close> and
  \<open>echoOut\<close> collect the calls made on the two ports; \<open>markers\<close> and \<open>markerPos\<close> are the
  statics of the file, \<open>markerPos\<close> an array of \<open>markerPosMax\<close> bytes.
\<close>

record world =
  clock :: "ulong list"
  avail :: "int list"
  rxq :: "int list"
  serialOps :: "serial_op list"
  echoOut :: "echo_item list"
  markers :: byte
  markerPos :: "byte list"

definition markerPosMax :: byte where
  "markerPosMax = 5"

definition END_OF_RESPONSE :: int where
  "END_OF_RESPONSE = 13"

definition CMD_SEND_MESSAGE :: string where
  "CMD_SEND_MESSAGE = ''AT$SF=''"

definition CMD_END :: string where
  "CMD_END = [CHR 0x0D]"

definition MODEM_BITS_PER_SECOND :: nat where
  "MODEM_BITS_PER_SECOND = 9600"

text \<open>
  A call of the environment takes the next value of its list. \<open>None\<close> means that the
  lists say nothing about what happens next: the run is not determined by them.
\<close>

definition millis :: "world \<Rightarrow> (ulong \<times> world) option" where
  "millis w = (case clock w of [] \<Rightarrow> None | t # ts \<Rightarrow> Some (t, w\<lparr>clock := ts\<rparr>))"

definition available :: "world \<Rightarrow> (int \<times> world) option" where
  "available w = (case avail w of [] \<Rightarrow> None | n # ns \<Rightarrow> Some (n, w\<lparr>avail := ns\<rparr>))"

definition read :: "world \<Rightarrow> (int \<times> world) option" where
  "read w = (case rxq w of [] \<Rightarrow> None | c # cs \<Rightarrow> Some (c, w\<lparr>rxq := cs\<rparr>))"

definition serial :: "serial_op \<Rightarrow> world \<Rightarrow> world" where
  "serial op w = w\<lparr>serialOps := serialOps w @ [op]\<rparr>"

definition echo :: "echo_item \<Rightarrow> world \<Rightarrow> world" where
  "echo e w = w\<lparr>echoOut := echoOut w @ [e]\<rparr>"

text \<open>\<open>String(char c)\<close> copies the C string \<open>{c, 0}\<close>: it is empty when \<open>c\<close> is NUL.\<close>

definition String_of_char :: "char \<Rightarrow> string" where
  "String_of_char c = (if c = CHR 0x00 then [] else [c])"

subsection \<open>sendBuffer\<close>

text \<open>The variables of the loop: \<open>i\<close>, \<open>startTime\<close>, \<open>response\<close>, \<open>actualMarkerCount\<close>.\<close>

record loop_vars =
  lv_i :: nat
  lv_startTime :: ulong
  lv_response :: string
  lv_actualMarkerCount :: byte

datatype flow = Break | Continue

text \<open>
  One pass through the body of \<^verbatim>\<open>for (;;)\<close>. \<open>timeout\<close> is the \<open>int\<close> parameter
  converted to \<open>unsigned long\<close> for the comparison with the elapsed time.
\<close>

definition sendBuffer_send :: "string \<Rightarrow> loop_vars \<Rightarrow> world \<Rightarrow> (loop_vars \<times> world) option" where
  "sendBuffer_send buffer v w =
     (if lv_i v < length buffer then
        do {
          let txChar = (of_char (buffer ! lv_i v) :: byte);
          let w1 = serial (Write txChar) w;
          (t, w2) \<leftarrow> millis w1;
          Some (v\<lparr>lv_i := lv_i v + 1, lv_startTime := t\<rparr>, w2)
        }
      else Some (v, w))"

definition sendBuffer_receive :: "byte \<Rightarrow> loop_vars \<Rightarrow> world \<Rightarrow> (flow \<times> loop_vars \<times> world) option" where
  "sendBuffer_receive expectedMarkerCount v w =
     do {
       (n, w1) \<leftarrow> available w;
       if n > 0 then
         do {
           (rxChar, w2) \<leftarrow> read w1;
           if rxChar = - 1 then Some (Continue, v, w2)
           else if rxChar = END_OF_RESPONSE then
             (let a = lv_actualMarkerCount v;
                  w3 = (if a < markerPosMax
                        then w2\<lparr>markerPos := (markerPos w2)[unat a := of_nat (length (lv_response v))]\<rparr>
                        else w2);
                  v1 = v\<lparr>lv_actualMarkerCount := a + 1\<rparr>
              in if lv_actualMarkerCount v1 \<ge> expectedMarkerCount then Some (Break, v1, w3)
                 else Some (Continue, v1, w3))
           else
             Some (Continue,
                   v\<lparr>lv_response := lv_response v @ String_of_char (char_of rxChar)\<rparr>, w2)
         }
       else Some (Continue, v, w1)
     }"

definition sendBuffer_iter ::
  "string \<Rightarrow> ulong \<Rightarrow> byte \<Rightarrow> loop_vars \<Rightarrow> world \<Rightarrow> (flow \<times> loop_vars \<times> world) option" where
  "sendBuffer_iter buffer timeout expectedMarkerCount v w =
     do {
       (v1, w1) \<leftarrow> sendBuffer_send buffer v w;
       (currentTime, w2) \<leftarrow> millis w1;
       if currentTime - lv_startTime v1 > timeout then Some (Break, v1, w2)
       else sendBuffer_receive expectedMarkerCount v1 w2
     }"

function sendBuffer_loop ::
  "string \<Rightarrow> ulong \<Rightarrow> byte \<Rightarrow> loop_vars \<Rightarrow> world \<Rightarrow> (loop_vars \<times> world) option" where
  "sendBuffer_loop buffer timeout expectedMarkerCount v w =
     (case sendBuffer_iter buffer timeout expectedMarkerCount v w of
        None \<Rightarrow> None
      | Some (Break, v1, w1) \<Rightarrow> Some (v1, w1)
      | Some (Continue, v1, w1) \<Rightarrow> sendBuffer_loop buffer timeout expectedMarkerCount v1 w1)"
  by pat_completeness auto

termination
  apply (relation "measure (\<lambda>(buffer, timeout, expectedMarkerCount, v, w). length (clock w))")
   apply simp
  apply (auto simp: sendBuffer_iter_def sendBuffer_send_def sendBuffer_receive_def millis_def
      available_def read_def serial_def Let_def
      split: if_splits list.splits Option.bind_splits prod.splits)
  done

declare sendBuffer_loop.simps [simp del]

text \<open>
  What follows the loop: the port is closed, both buffers are logged, and the result is
  decided from \<open>actualMarkerCount\<close>.
\<close>

definition sendBuffer_report ::
  "string \<Rightarrow> byte \<Rightarrow> loop_vars \<Rightarrow> world \<Rightarrow> bool \<times> string \<times> byte \<times> world" where
  "sendBuffer_report buffer expectedMarkerCount v w =
     (let w1 = serial End w;
          w2 = echo (LogBuffer ''>> '' buffer [] 0) w1;
          w3 = echo (LogBuffer ''<< '' (lv_response v) (markerPos w2) (lv_actualMarkerCount v)) w2
      in if lv_actualMarkerCount v < expectedMarkerCount then
           (False, lv_response v, lv_actualMarkerCount v,
            if length (lv_response v) = 0
            then echo (Println '' - Wisol.sendBuffer: Error: No response'') w3
            else echo (Println ('' - Wisol.sendBuffer: Error: Unknown response: ''
                                 @ lv_response v)) w3)
         else
           (True, lv_response v, lv_actualMarkerCount v,
            echo (Println ('' - Wisol.sendBuffer: response: '' @ lv_response v)) w3))"

text \<open>
  \<open>sendBuffer\<close> returns its result and the two output parameters \<open>response\<close> and
  \<open>actualMarkerCount\<close>; it takes the value \<open>actualMarkerCount\<close> has on entry (the value of
  \<open>response\<close> on entry is overwritten at once).
\<close>

definition sendBuffer ::
  "Wisol \<Rightarrow> string \<Rightarrow> int \<Rightarrow> byte \<Rightarrow> byte \<Rightarrow> world \<Rightarrow> (bool \<times> string \<times> byte \<times> world) option" where
  "sendBuffer this buffer timeout expectedMarkerCount actualMarkerCount w =
     (let w1 = echo (Println ('' - Wisol.sendBuffer: '' @ buffer)) w
      in if useEmulator this then Some (True, [], actualMarkerCount, w1)
         else
           do {
             let w2 = serial Listen (serial Flush (serial (Begin MODEM_BITS_PER_SECOND) w1));
             (startTime, w3) \<leftarrow> millis w2;
             (v, w4) \<leftarrow> sendBuffer_loop buffer (word_of_int timeout) expectedMarkerCount
                          \<lparr>lv_i = 0, lv_startTime = startTime, lv_response = [],
                           lv_actualMarkerCount = 0\<rparr> w3;
             Some (sendBuffer_report buffer expectedMarkerCount v w4)
           })"

subsection \<open>isReady, sendMessage, sendCommand, sendString\<close>

definition isReady :: "SIGFOX_h \<Rightarrow> Wisol \<Rightarrow> world \<Rightarrow> (bool \<times> world) option" where
  "isReady h this w =
     do {
       (currentTime, w1) \<leftarrow> millis w;
       if lastSend this = 0 then Some (True, w1)
       else
         (let elapsedTime = currentTime - lastSend this
          in if elapsedTime \<le> 2 * 1000 then
               Some (False,
                     echo (Println ''Must wait 2 seconds before sending the next message'') w1)
             else
               Some (True,
                     if elapsedTime \<le> SEND_DELAY h
                     then echo (Println
                            ''Warning: Should wait 10 mins before sending the next message'') w1
                     else w1))
     }"

definition enterCommandMode :: bool where
  "enterCommandMode = True"

definition exitCommandMode :: bool where
  "exitCommandMode = True"

text \<open>
  \<open>sendMessage\<close> and \<open>sendString\<close> return their result and the object as they leave it.
  \<open>sendMessage\<close> passes the static \<open>markers\<close> as \<open>actualMarkerCount\<close>.
\<close>

definition sendMessage :: "SIGFOX_h \<Rightarrow> Wisol \<Rightarrow> string \<Rightarrow> world \<Rightarrow> (bool \<times> Wisol \<times> world) option" where
  "sendMessage h this payload w =
     do {
       let w1 = echo (Println ('' - Wisol.sendMessage: '' @ device this @ '','' @ payload)) w;
       (ready, w2) \<leftarrow> isReady h this w1;
       if \<not> ready then Some (False, this, w2)
       else if \<not> exitCommandMode then Some (False, this, w2)
       else
         do {
           let message = CMD_SEND_MESSAGE @ payload @ CMD_END;
           (ok, data, m, w3) \<leftarrow> sendBuffer this message (WISOL_COMMAND_TIMEOUT h) 1 (markers w2) w2;
           let w4 = w3\<lparr>markers := m\<rparr>;
           if ok then
             do {
               let w5 = echo (Println data) w4;
               (t, w6) \<leftarrow> millis w5;
               Some (True, this\<lparr>lastSend := t\<rparr>, w6)
             }
           else Some (False, this, w4)
         }
     }"

text \<open>
  \<open>sendCommand\<close> returns its result and the output parameters \<open>result\<close> and
  \<open>actualMarkerCount\<close>; it takes the values they have on entry.
\<close>

definition sendCommand ::
  "SIGFOX_h \<Rightarrow> Wisol \<Rightarrow> string \<Rightarrow> byte \<Rightarrow> string \<Rightarrow> byte \<Rightarrow> world
     \<Rightarrow> (bool \<times> string \<times> byte \<times> world) option" where
  "sendCommand h this cmd expectedMarkerCount result actualMarkerCount w =
     (if \<not> enterCommandMode then Some (False, result, actualMarkerCount, w)
      else
        do {
          (ok, data, m, w1) \<leftarrow> sendBuffer this cmd (WISOL_COMMAND_TIMEOUT h) expectedMarkerCount
                                 actualMarkerCount w;
          if \<not> ok then Some (False, result, m, w1)
          else Some (True, data, m, w1)
        })"

text \<open>The loop of \<open>sendString\<close> that builds the payload, one \<open>toHex(ch)\<close> for each character.\<close>

fun sendString_payload :: "string \<Rightarrow> string \<Rightarrow> string" where
  "sendString_payload [] payload = payload"
| "sendString_payload (ch # str) payload = sendString_payload str (payload @ toHex_char ch)"

definition sendString :: "SIGFOX_h \<Rightarrow> Wisol \<Rightarrow> string \<Rightarrow> world \<Rightarrow> (bool \<times> Wisol \<times> world) option" where
  "sendString h this str w =
     (let w1 = echo (Println ('' - Wisol.sendString: '' @ str)) w;
          payload = sendString_payload str []
      in sendMessage h this payload w1)"

subsection \<open>Notions used to state the properties\<close>

text \<open>Two lowercase hex digits for one byte, the high nibble first, zero-padded.\<close>

definition hex_pair :: "byte \<Rightarrow> string" where
  "hex_pair b = [''0123456789abcdef'' ! (unat b div 16), ''0123456789abcdef'' ! (unat b mod 16)]"

text \<open>
  Decoding a two-character hex string with \<open>hexDigitToDecimal\<close>:
  \<open>16 * hexDigitToDecimal(first) + hexDigitToDecimal(second)\<close>.
\<close>

fun decode_hex_pair :: "string \<Rightarrow> nat option" where
  "decode_hex_pair [d1, d2] =
     Some (16 * unat (fst (hexDigitToDecimal d1)) + unat (fst (hexDigitToDecimal d2)))"
| "decode_hex_pair _ = None"

text \<open>C's \<open>toupper\<close> on ASCII.\<close>

definition toupper :: "char \<Rightarrow> char" where
  "toupper c = (if 97 \<le> (of_char c :: nat) \<and> (of_char c :: nat) \<le> 122
                then char_of ((of_char c :: nat) - 32) else c)"


text \<open>The entries \<open>markerPos[0 .. min(actualMarkerCount, 5) - 1]\<close>.\<close>

definition recorded :: "byte \<Rightarrow> world \<Rightarrow> nat list" where
  "recorded actualMarkerCount w =
     map unat (take (min (unat actualMarkerCount) (unat markerPosMax)) (markerPos w))"

subsection \<open>A driver and a world to start from\<close>

text \<open>
  A driver that has not sent yet (as \<open>begin()\<close> leaves \<open>lastSend\<close>), and a world in which
  nothing has happened: the ports unused, the statics zero.
\<close>

definition fresh :: "bool \<Rightarrow> ulong \<Rightarrow> Wisol" where
  "fresh emu t = \<lparr>country = 0, useEmulator = emu, device = ''g88pi'', lastSend = t\<rparr>"

definition sim :: "ulong list \<Rightarrow> int list \<Rightarrow> int list \<Rightarrow> world" where
  "sim ts ns cs =
     \<lparr>clock = ts, avail = ns, rxq = cs, serialOps = [], echoOut = [],
      markers = 0, markerPos = [0, 0, 0, 0, 0]\<rparr>"

text \<open>A value for the constants of SIGFOX.h: a 2000 ms timeout, 10 minutes between sends.\<close>

definition h_sim :: SIGFOX_h where
  "h_sim = \<lparr>WISOL_COMMAND_TIMEOUT = 2000, SEND_DELAY = 600000\<rparr>"

subsection \<open>Environments of an exchange\<close>

text \<open>
  A pass through the loop once the buffer has been sent reads the clock, asks
  \<open>available()\<close> and, when that is positive, calls \<open>read()\<close>. \<open>Idle t n\<close> is a pass in
  which the clock reads \<open>t\<close> and \<open>available()\<close> returns \<open>n\<close>, \<open>Byte t n c\<close> one in which
  \<open>read()\<close> is called as well and returns \<open>c\<close>.
\<close>

datatype pass = Idle ulong int | Byte ulong int int

fun pass_clock :: "pass \<Rightarrow> ulong" where
  "pass_clock (Idle t n) = t"
| "pass_clock (Byte t n c) = t"

fun pass_avail :: "pass \<Rightarrow> int" where
  "pass_avail (Idle t n) = n"
| "pass_avail (Byte t n c) = n"

fun reads :: "pass list \<Rightarrow> int list" where
  "reads [] = []"
| "reads (Idle t n # ps) = reads ps"
| "reads (Byte t n c # ps) = c # reads ps"

text \<open>
  The pass is what its name says, and it comes in time: no more than \<open>timeout\<close> after
  the clock read \<open>t0\<close>.
\<close>

fun pass_ok :: "ulong \<Rightarrow> ulong \<Rightarrow> pass \<Rightarrow> bool" where
  "pass_ok timeout t0 (Idle t n) = (\<not> t - t0 > timeout \<and> \<not> 0 < n)"
| "pass_ok timeout t0 (Byte t n c) = (\<not> t - t0 > timeout \<and> 0 < n)"

text \<open>One more reading of the clock before those of \<open>w\<close>.\<close>

definition tick :: "ulong \<Rightarrow> world \<Rightarrow> world" where
  "tick t w = w\<lparr>clock := t # clock w\<rparr>"

text \<open>
  The environment of an exchange, before that of \<open>w\<close>: the clock reads \<open>t\<close> when the
  exchange starts and in each pass that writes a byte of \<open>buffer\<close>, nothing is available
  in these passes, and the passes \<open>ps\<close> follow.
\<close>

definition exchange :: "string \<Rightarrow> ulong \<Rightarrow> pass list \<Rightarrow> world \<Rightarrow> world" where
  "exchange buffer t ps w =
     w\<lparr>clock := t # replicate (2 * length buffer) t @ map pass_clock ps @ clock w,
       avail := replicate (length buffer) 0 @ map pass_avail ps @ avail w,
       rxq := reads ps @ rxq w\<rparr>"

text \<open>
  The text in an inbound stream: the values that are neither \<open>-1\<close> nor a terminator, as
  characters, NUL left out.
\<close>

definition text_of :: "int list \<Rightarrow> string" where
  "text_of cs =
     concat (map (\<lambda>c. String_of_char (char_of c))
               (filter (\<lambda>c. c \<noteq> - 1 \<and> c \<noteq> END_OF_RESPONSE) cs))"

text \<open>
  The offset of each terminator of an inbound stream in the text received, the text
  having \<open>n\<close> characters before the stream.
\<close>

fun marker_offsets :: "nat \<Rightarrow> int list \<Rightarrow> nat list" where
  "marker_offsets n [] = []"
| "marker_offsets n (c # cs) =
     (if c = END_OF_RESPONSE then n # marker_offsets n cs
      else marker_offsets (n + length (text_of [c])) cs)"

text \<open>The recorded positions that an exchange leaves, when it returns.\<close>

definition final_positions :: "(bool \<times> string \<times> byte \<times> world) option \<Rightarrow> nat list option" where
  "final_positions r = map_option (\<lambda>(ok, response, actual, w). recorded actual w) r"

text \<open>The bytes that \<open>sendMessage\<close> or \<open>sendString\<close> has written, when it returns.\<close>

definition transmitted :: "(bool \<times> Wisol \<times> world) option \<Rightarrow> byte list option" where
  "transmitted r = map_option (\<lambda>(ok, this, w). written (serialOps w)) r"

text \<open>
  What an exchange leaves of a world \<open>w\<close>: the port was opened, \<open>buffer\<close> written and
  the port closed; four entries went to the echo port, the last of them \<open>verdict\<close>; and of
  the offsets \<open>offs\<close> of the terminators the first five are in \<open>markerPos\<close>, whose other
  entries are as they were.
\<close>

definition after_exchange ::
  "string \<Rightarrow> string \<Rightarrow> byte \<Rightarrow> nat list \<Rightarrow> echo_item \<Rightarrow> world \<Rightarrow> world" where
  "after_exchange buffer response actual offs verdict w =
     w\<lparr>serialOps := serialOps w @ [Begin MODEM_BITS_PER_SECOND, Flush, Listen]
                     @ map (\<lambda>c. Write (of_char c)) buffer @ [End],
       echoOut := echoOut w @
          [Println ('' - Wisol.sendBuffer: '' @ buffer),
           LogBuffer ''>> '' buffer [] 0,
           LogBuffer ''<< '' response
             (map of_nat (take 5 offs) @ drop (min 5 (length offs)) (markerPos w)) actual,
           verdict],
       markerPos := map of_nat (take 5 offs) @ drop (min 5 (length offs)) (markerPos w)\<rparr>"

text \<open>The three verdicts of \<open>sendBuffer\<close>.\<close>

definition verdict_ok :: "string \<Rightarrow> echo_item" where
  "verdict_ok response = Println ('' - Wisol.sendBuffer: response: '' @ response)"

definition verdict_failed :: "string \<Rightarrow> echo_item" where
  "verdict_failed response =
     (if length response = 0 then Println '' - Wisol.sendBuffer: Error: No response''
      else Println ('' - Wisol.sendBuffer: Error: Unknown response: '' @ response))"

text \<open>
  The duty cycle lets a send pass at time \<open>now\<close>: nothing was sent before, or more than
  2000 ms have elapsed since \<open>lastSend\<close> (on the 32-bit clock).
\<close>

definition ready :: "Wisol \<Rightarrow> ulong \<Rightarrow> bool" where
  "ready this now \<longleftrightarrow> lastSend this = 0 \<or> 2000 < unat (now - lastSend this)"

text \<open>What \<open>isReady\<close> prints at time \<open>now\<close>.\<close>

definition ready_lines :: "SIGFOX_h \<Rightarrow> Wisol \<Rightarrow> ulong \<Rightarrow> echo_item list" where
  "ready_lines h this now =
     (if lastSend this = 0 then []
      else if unat (now - lastSend this) \<le> 2000
        then [Println ''Must wait 2 seconds before sending the next message'']
      else if unat (now - lastSend this) \<le> unat (SEND_DELAY h)
        then [Println ''Warning: Should wait 10 mins before sending the next message'']
      else [])"

text \<open>The result of \<open>sendMessage\<close> or \<open>sendString\<close> and the driver as it leaves it.\<close>

definition outcome :: "(bool \<times> Wisol \<times> world) option \<Rightarrow> (bool \<times> Wisol) option" where
  "outcome r = map_option (\<lambda>(ok, this, w). (ok, this)) r"

subsection \<open>Simulated runs\<close>

text \<open>
  Seven terminators arrive after \<open>AT$I=10\<close> has been sent, with text before the first
  six and an idle pass on the way.
\<close>

definition seven :: "pass list" where
  "seven =
     [Byte 110 1 79, Byte 120 1 75, Byte 130 1 13, Byte 140 2 97, Byte 150 1 13,
      Idle 160 0, Byte 170 1 98, Byte 180 1 13, Byte 190 1 99, Byte 200 1 13,
      Byte 210 1 100, Byte 220 1 13, Byte 230 1 101, Byte 240 1 13, Byte 250 1 102]"

text \<open>\<open>OK\<close> and two terminators in a row.\<close>

definition twice :: "pass list" where
  "twice = [Byte 110 1 79, Byte 120 1 75, Byte 130 1 13]"

subsection \<open>Invariants of the loop\<close>

text \<open>
  What the loop has stored in \<open>markerPos\<close> after the terminators at the offsets \<open>offs\<close>,
  \<open>k\<close> terminators having been counted before.
\<close>

fun stored :: "nat \<Rightarrow> nat list \<Rightarrow> byte list \<Rightarrow> byte list" where
  "stored k [] mp = mp"
| "stored k (off # offs) mp = stored (Suc k) offs (if k < 5 then mp[k := of_nat off] else mp)"

text \<open>The recorded positions of an array \<open>mp\<close>, as numbers.\<close>

definition taken :: "byte \<Rightarrow> byte list \<Rightarrow> nat list" where
  "taken a mp = map unat (take (min (unat a) (unat markerPosMax)) mp)"

text \<open>
  While the response has at most 255 characters, the recorded positions are in
  ascending order and none lies beyond the end of the response.
\<close>

definition positions_ok :: "loop_vars \<Rightarrow> world \<Rightarrow> bool" where
  "positions_ok v w \<longleftrightarrow>
     length (markerPos w) = 5
     \<and> (length (lv_response v) \<le> 255 \<longrightarrow>
          sorted (taken (lv_actualMarkerCount v) (markerPos w))
          \<and> (\<forall>p \<in> set (taken (lv_actualMarkerCount v) (markerPos w)).
                p \<le> length (lv_response v)))"

text \<open>The counter has not reached \<open>expectedMarkerCount\<close>: it is so at the head of the loop.\<close>

definition below :: "byte \<Rightarrow> loop_vars \<Rightarrow> bool" where
  "below e v \<longleftrightarrow> lv_actualMarkerCount v = 0 \<or> lv_actualMarkerCount v < e"

section \<open>Properties of the hex codec\<close>

lemma utoa_digit_0: "utoa_digit 0 = CHR ''0''"
  by (simp add: utoa_digit_def char_of_eq_iff)

lemma utoa16_small: "n < 16 \<Longrightarrow> utoa16 n = [utoa_digit n]"
  by (simp add: utoa16.simps)

lemma utoa16_byte:
  "16 \<le> n \<Longrightarrow> n < 256 \<Longrightarrow> utoa16 n = [utoa_digit (n div 16), utoa_digit (n mod 16)]"
  by (subst utoa16.simps) (simp add: utoa16_small less_mult_imp_div_less)

lemma unat_byte_less: "unat (b::byte) < 256"
  using unsigned_less [of b, where ?'a = nat] by simp

lemma unat_byte_div16: "unat (b::byte) div 16 < 16"
  using unat_byte_less [of b] by (simp add: less_mult_imp_div_less)

lemma concat_hex_eq:
  "concat_hex bytes b = bytes @ [utoa_digit (unat b div 16), utoa_digit (unat b mod 16)]"
proof (cases "b \<le> 0xF")
  case True
  then have "unat b < 16" by (simp add: word_le_nat_alt)
  then show ?thesis using True
    by (simp add: concat_hex_def String_base16_def utoa16_small utoa_digit_0)
next
  case False
  then have "16 \<le> unat b" by (simp add: word_le_nat_alt)
  then show ?thesis using False unat_byte_less [of b]
    by (simp add: concat_hex_def String_base16_def utoa16_byte)
qed

lemma nat_less_16_cases:
  "d < 16 \<Longrightarrow> d \<in> {0, 1, 2, 3, 4, 5, 6, 7, 8, 9, 10, 11, 12, 13, 14, 15::nat}"
  by simp arith

lemma utoa_digit_table: "d < 16 \<Longrightarrow> utoa_digit d = ''0123456789abcdef'' ! d"
  by (drule nat_less_16_cases) (auto simp: utoa_digit_def char_of_eq_iff)

lemma concat_hex_pair: "concat_hex bytes b = bytes @ hex_pair b"
  by (simp add: concat_hex_eq hex_pair_def utoa_digit_table unat_byte_div16)

lemma toHex_scan_eq: "toHex_scan n b bytes = bytes @ concat (map hex_pair (take n b))"
  by (induction n b bytes rule: toHex_scan.induct) (simp_all add: concat_hex_pair)

lemma length_hex_pair: "length (hex_pair b) = 2"
  by (simp add: hex_pair_def)

lemma of_char_utoa_digit:
  "d < 16 \<Longrightarrow> (of_char (utoa_digit d) :: nat) = (if d < 10 then 48 + d else 87 + d)"
  by (simp add: utoa_digit_def)

lemma hexDigitToDecimal_utoa_digit:
  "d < 16 \<Longrightarrow> hexDigitToDecimal (utoa_digit d) = (of_nat d, [])"
  by (simp add: hexDigitToDecimal_def char_val_def of_char_utoa_digit)

lemma of_char_toupper_utoa_digit:
  "d < 16 \<Longrightarrow>
     (of_char (toupper (utoa_digit d)) :: nat) = (if d < 10 then 48 + d else 55 + d)"
  by (simp add: toupper_def of_char_utoa_digit)

lemma hexDigitToDecimal_toupper:
  "d < 16 \<Longrightarrow> hexDigitToDecimal (toupper (utoa_digit d)) = (of_nat d, [])"
  by (simp add: hexDigitToDecimal_def char_val_def of_char_toupper_utoa_digit)

section \<open>Properties of the exchange\<close>

subsection \<open>The environment\<close>

lemma millis_SomeE:
  assumes "millis w = Some (t, w1)"
  obtains ts where "clock w = t # ts" and "w1 = w\<lparr>clock := ts\<rparr>"
  using assms by (auto simp: millis_def split: list.splits)

lemma available_SomeE:
  assumes "available w = Some (n, w1)"
  obtains ns where "avail w = n # ns" and "w1 = w\<lparr>avail := ns\<rparr>"
  using assms by (auto simp: available_def split: list.splits)

lemma read_SomeE:
  assumes "read w = Some (c, w1)"
  obtains cs where "rxq w = c # cs" and "w1 = w\<lparr>rxq := cs\<rparr>"
  using assms by (auto simp: read_def split: list.splits)

subsection \<open>The counter does not wrap\<close>

lemma unat_byte_Suc: "unat (a::byte) < 255 \<Longrightarrow> unat (a + 1) = unat a + 1"
  by (simp add: unat_word_ariths)

lemma below_no_wrap: "below e v \<Longrightarrow> unat (lv_actualMarkerCount v) < 255"
  unfolding below_def
proof (erule disjE)
  assume "lv_actualMarkerCount v < e"
  then have "unat (lv_actualMarkerCount v) < unat e" by (simp add: word_less_nat_alt)
  with unat_byte_less [of e] show ?thesis by simp
qed simp

subsection \<open>One pass of the loop\<close>

lemma send_SomeD:
  "sendBuffer_send buffer v w = Some (v1, w1) \<Longrightarrow>
     rxq w1 = rxq w \<and> avail w1 = avail w \<and> markerPos w1 = markerPos w \<and> markers w1 = markers w
     \<and> echoOut w1 = echoOut w
     \<and> lv_response v1 = lv_response v \<and> lv_actualMarkerCount v1 = lv_actualMarkerCount v"
  by (auto simp: sendBuffer_send_def serial_def Let_def elim!: millis_SomeE
      split: if_splits Option.bind_splits)


lemma receive_below:
  assumes "sendBuffer_receive e v w = Some (Continue, v1, w1)" and "below e v"
  shows "below e v1"
  using assms
  by (auto simp: sendBuffer_receive_def Let_def not_le below_def
      split: Option.bind_splits prod.splits if_splits)


lemma iter_below:
  assumes "sendBuffer_iter buffer t e v w = Some (Continue, v1, w1)" and "below e v"
  shows "below e v1"
proof -
  from assms(1) obtain v0 w0 tn w0' where
    s: "sendBuffer_send buffer v w = Some (v0, w0)"
    and r: "sendBuffer_receive e v0 w0' = Some (Continue, v1, w1)"
    by (auto simp: sendBuffer_iter_def split: Option.bind_splits prod.splits if_splits)
  from send_SomeD [OF s] assms(2) have "below e v0" by (simp add: below_def)
  from receive_below [OF r this] show ?thesis .
qed

subsection \<open>A rule for the loop\<close>

lemma loop_rule:
  assumes "sendBuffer_loop buffer t e v w = Some (v', w')"
    and "I v w"
    and "\<And>v w v1 w1. I v w \<Longrightarrow> sendBuffer_iter buffer t e v w = Some (Continue, v1, w1) \<Longrightarrow> I v1 w1"
    and "\<And>v w v1 w1. I v w \<Longrightarrow> sendBuffer_iter buffer t e v w = Some (Break, v1, w1) \<Longrightarrow> Q v1 w1"
  shows "Q v' w'"
  using assms
proof (induction buffer t e v w rule: sendBuffer_loop.induct)
  case (1 buffer t e v w)
  note cont = "1.prems"(3) and brk = "1.prems"(4)
  from "1.prems"(1) obtain f v1 w1 where
    it: "sendBuffer_iter buffer t e v w = Some (f, v1, w1)"
    by (subst (asm) sendBuffer_loop.simps) (auto split: option.splits)
  show ?case
  proof (cases f)
    case Break
    with it "1.prems"(1) have "v' = v1" "w' = w1"
      by (subst (asm) sendBuffer_loop.simps, simp)+
    with brk [OF "1.prems"(2) it [unfolded Break]] show ?thesis by simp
  next
    case Continue
    with it "1.prems"(1) have run: "sendBuffer_loop buffer t e v1 w1 = Some (v', w')"
      by (subst (asm) sendBuffer_loop.simps) simp
    show ?thesis
      by (rule "1.IH" [OF it [unfolded Continue] refl refl refl run
            cont [OF "1.prems"(2) it [unfolded Continue]] cont brk])
  qed
qed

subsection \<open>Counting the terminators\<close>


lemma unat_markerPosMax: "unat markerPosMax = 5"
  by (simp add: markerPosMax_def)

lemma taken_push:
  assumes "a < markerPosMax" and "length mp = 5" and "n \<le> 255"
  shows "taken (a + 1) (mp[unat a := of_nat n]) = taken a mp @ [n]"
proof -
  from assms(1) have a5: "unat a < 5"
    by (simp add: word_less_nat_alt unat_markerPosMax)
  then have suc: "unat (a + 1) = Suc (unat a)" by (simp add: unat_byte_Suc)
  from assms(3) have n: "unat (of_nat n :: byte) = n" by (simp add: unat_of_nat)
  from a5 assms(2) have
    "take (Suc (unat a)) (mp[unat a := of_nat n]) = take (unat a) mp @ [of_nat n]"
    by (simp add: take_Suc_conv_app_nth)
  with a5 suc n show ?thesis
    by (simp add: taken_def unat_markerPosMax min_def)
qed

lemma taken_full:
  assumes "\<not> a < markerPosMax" and "unat a < 255"
  shows "taken (a + 1) mp = taken a mp"
proof -
  from assms(1) have "5 \<le> unat a"
    by (simp add: word_less_nat_alt unat_markerPosMax)
  with assms(2) show ?thesis
    by (simp add: taken_def unat_markerPosMax unat_byte_Suc)
qed

lemma receive_positions:
  assumes "sendBuffer_receive e v w = Some (f, v1, w1)"
    and "below e v" and "positions_ok v w"
  shows "positions_ok v1 w1"
proof -
  note nw = below_no_wrap [OF assms(2)]
  show ?thesis
    using assms(1,3) nw
    by (auto simp: sendBuffer_receive_def Let_def END_OF_RESPONSE_def positions_ok_def
        taken_push taken_full sorted_append String_of_char_def le_Suc_eq
        split: Option.bind_splits prod.splits if_splits
        elim!: available_SomeE read_SomeE)
qed

lemma iter_positions:
  assumes "sendBuffer_iter buffer t e v w = Some (f, v1, w1)"
    and "below e v" and "positions_ok v w"
  shows "positions_ok v1 w1"
proof -
  from assms(1) obtain v0 w0 tn w0' where
    s: "sendBuffer_send buffer v w = Some (v0, w0)" and m: "millis w0 = Some (tn, w0')"
    and r: "(v1 = v0 \<and> w1 = w0') \<or> sendBuffer_receive e v0 w0' = Some (f, v1, w1)"
    by (auto simp: sendBuffer_iter_def split: Option.bind_splits prod.splits if_splits)
  from send_SomeD [OF s] have
    s': "markerPos w0 = markerPos w" "lv_actualMarkerCount v0 = lv_actualMarkerCount v"
      "lv_response v0 = lv_response v" by simp_all
  from m have m': "markerPos w0' = markerPos w0" by (auto elim: millis_SomeE)
  from assms(2) s'(2) have b0: "below e v0" by (simp add: below_def)
  from assms(3) s' m' have p0: "positions_ok v0 w0'" by (simp add: positions_ok_def)
  from r show ?thesis
  proof
    assume "v1 = v0 \<and> w1 = w0'"
    with p0 show ?thesis by simp
  next
    assume "sendBuffer_receive e v0 w0' = Some (f, v1, w1)"
    from receive_positions [OF this b0 p0] show ?thesis .
  qed
qed

lemma loop_positions:
  assumes run: "sendBuffer_loop buffer t e v w = Some (v', w')"
    and b: "below e v" and p: "positions_ok v w"
  shows "positions_ok v' w'"
proof (rule loop_rule [OF run, where I = "\<lambda>x y. below e x \<and> positions_ok x y"])
  from b p show "below e v \<and> positions_ok v w" ..
next
  fix x y x1 y1
  assume i: "below e x \<and> positions_ok x y"
    and it: "sendBuffer_iter buffer t e x y = Some (Continue, x1, y1)"
  from iter_below [OF it] iter_positions [OF it] i
  show "below e x1 \<and> positions_ok x1 y1" by simp
next
  fix x y x1 y1
  assume i: "below e x \<and> positions_ok x y"
    and it: "sendBuffer_iter buffer t e x y = Some (Break, x1, y1)"
  from iter_positions [OF it] i show "positions_ok x1 y1" by simp
qed

lemma sendBuffer_report_eq:
  assumes "sendBuffer_report buffer e v w = (ok, response, actual, w')"
  shows "response = lv_response v \<and> actual = lv_actualMarkerCount v
    \<and> (ok \<longleftrightarrow> e \<le> lv_actualMarkerCount v)
    \<and> rxq w' = rxq w \<and> markerPos w' = markerPos w \<and> clock w' = clock w
    \<and> avail w' = avail w \<and> markers w' = markers w
    \<and> serialOps w' = serialOps w @ [End]"
  using assms
  by (auto simp: sendBuffer_report_def Let_def echo_def serial_def not_less split: if_splits)

lemma sendBuffer_SomeD:
  assumes "sendBuffer this buffer timeout e a w = Some (ok, response, actual, w')"
    and "\<not> useEmulator this"
  shows "\<exists>startTime w3 v w4.
    millis (serial Listen (serial Flush (serial (Begin MODEM_BITS_PER_SECOND)
        (echo (Println ('' - Wisol.sendBuffer: '' @ buffer)) w)))) = Some (startTime, w3)
    \<and> sendBuffer_loop buffer (word_of_int timeout) e
          \<lparr>lv_i = 0, lv_startTime = startTime, lv_response = [], lv_actualMarkerCount = 0\<rparr> w3
         = Some (v, w4)
    \<and> sendBuffer_report buffer e v w4 = (ok, response, actual, w')"
  using assms
  by (auto simp: sendBuffer_def Let_def split: Option.bind_splits prod.splits)


subsection \<open>Running the loop on a given environment\<close>

lemma iter_send_quiet:
  assumes "lv_i v < length buffer"
    and "clock w = t # t # ts" and "avail w = 0 # ns"
  shows "sendBuffer_iter buffer tmo e v w =
         Some (Continue, v\<lparr>lv_i := Suc (lv_i v), lv_startTime := t\<rparr>,
               w\<lparr>serialOps := serialOps w @ [Write (of_char (buffer ! lv_i v))],
                 clock := ts, avail := ns\<rparr>)"
  using assms
  by (simp add: sendBuffer_iter_def sendBuffer_send_def sendBuffer_receive_def millis_def
      available_def serial_def)

lemma loop_send_quiet:
  assumes "lv_i v + n = length buffer"
    and "clock w = replicate (2 * n) t @ ts"
    and "avail w = replicate n 0 @ ns"
    and "0 < n"
  shows "sendBuffer_loop buffer tmo e v w =
         sendBuffer_loop buffer tmo e (v\<lparr>lv_i := length buffer, lv_startTime := t\<rparr>)
           (w\<lparr>serialOps := serialOps w @ map (\<lambda>c. Write (of_char c)) (drop (lv_i v) buffer),
              clock := ts, avail := ns\<rparr>)"
  using assms
proof (induction n arbitrary: v w)
  case 0
  then show ?case by simp
next
  case (Suc n)
  let ?v1 = "v\<lparr>lv_i := Suc (lv_i v), lv_startTime := t\<rparr>"
  let ?w1 = "w\<lparr>serialOps := serialOps w @ [Write (of_char (buffer ! lv_i v))],
                 clock := replicate (2 * n) t @ ts, avail := replicate n 0 @ ns\<rparr>"
  from Suc.prems have lt: "lv_i v < length buffer" by simp
  from Suc.prems have it: "sendBuffer_iter buffer tmo e v w = Some (Continue, ?v1, ?w1)"
    by (intro iter_send_quiet) simp_all
  have step: "sendBuffer_loop buffer tmo e v w = sendBuffer_loop buffer tmo e ?v1 ?w1"
    by (subst sendBuffer_loop.simps) (simp add: it)
  show ?case
  proof (cases "n = 0")
    case True
    with Suc.prems have "drop (lv_i v) buffer = [buffer ! lv_i v]"
      by (simp add: Cons_nth_drop_Suc [symmetric])
    with True Suc.prems step show ?thesis by simp
  next
    case False
    from lt have d: "drop (lv_i v) buffer = buffer ! lv_i v # drop (Suc (lv_i v)) buffer"
      by (simp add: Cons_nth_drop_Suc)
    from Suc.prems False have
      "sendBuffer_loop buffer tmo e ?v1 ?w1 =
         sendBuffer_loop buffer tmo e (?v1\<lparr>lv_i := length buffer, lv_startTime := t\<rparr>)
           (?w1\<lparr>serialOps := serialOps ?w1 @ map (\<lambda>c. Write (of_char c)) (drop (lv_i ?v1) buffer),
              clock := ts, avail := ns\<rparr>)"
      by (intro Suc.IH) simp_all
    with step d show ?thesis by simp
  qed
qed

lemma iter_timeout:
  assumes "\<not> lv_i v < length buffer"
    and "clock w = t' # ts" and "t' - lv_startTime v > tmo"
  shows "sendBuffer_iter buffer tmo e v w = Some (Break, v, w\<lparr>clock := ts\<rparr>)"
  using assms
  by (simp add: sendBuffer_iter_def sendBuffer_send_def millis_def)

lemma iter_idle:
  assumes "\<not> lv_i v < length buffer"
    and "clock w = t' # ts" and "\<not> t' - lv_startTime v > tmo"
    and "avail w = n # ns" and "\<not> 0 < n"
  shows "sendBuffer_iter buffer tmo e v w = Some (Continue, v, w\<lparr>clock := ts, avail := ns\<rparr>)"
  using assms
  by (simp add: sendBuffer_iter_def sendBuffer_send_def sendBuffer_receive_def millis_def
      available_def)

lemma iter_marker:
  assumes "\<not> lv_i v < length buffer"
    and "clock w = t' # ts" and "\<not> t' - lv_startTime v > tmo"
    and "avail w = n # ns" and "0 < n" and "rxq w = 13 # cs"
  shows "sendBuffer_iter buffer tmo e v w =
         Some (if e \<le> lv_actualMarkerCount v + 1 then Break else Continue,
               v\<lparr>lv_actualMarkerCount := lv_actualMarkerCount v + 1\<rparr>,
               w\<lparr>clock := ts, avail := ns, rxq := cs,
                 markerPos := (if lv_actualMarkerCount v < 5
                               then (markerPos w)[unat (lv_actualMarkerCount v)
                                                   := of_nat (length (lv_response v))]
                               else markerPos w)\<rparr>)"
  using assms
  by (simp add: sendBuffer_iter_def sendBuffer_send_def sendBuffer_receive_def millis_def
      available_def read_def END_OF_RESPONSE_def markerPosMax_def Let_def)

lemma iter_char:
  assumes "\<not> lv_i v < length buffer"
    and "clock w = t' # ts" and "\<not> t' - lv_startTime v > tmo"
    and "avail w = n # ns" and "0 < n" and "rxq w = c # cs" and "c \<noteq> - 1" and "c \<noteq> 13"
  shows "sendBuffer_iter buffer tmo e v w =
         Some (Continue, v\<lparr>lv_response := lv_response v @ String_of_char (char_of c)\<rparr>,
               w\<lparr>clock := ts, avail := ns, rxq := cs\<rparr>)"
  using assms
  by (simp add: sendBuffer_iter_def sendBuffer_send_def sendBuffer_receive_def millis_def
      available_def read_def END_OF_RESPONSE_def)

lemma iter_skip:
  assumes "\<not> lv_i v < length buffer"
    and "clock w = t' # ts" and "\<not> t' - lv_startTime v > tmo"
    and "avail w = n # ns" and "0 < n" and "rxq w = - 1 # cs"
  shows "sendBuffer_iter buffer tmo e v w =
         Some (Continue, v, w\<lparr>clock := ts, avail := ns, rxq := cs\<rparr>)"
  using assms
  by (simp add: sendBuffer_iter_def sendBuffer_send_def sendBuffer_receive_def millis_def
      available_def read_def)

lemma loop_step:
  "sendBuffer_iter buffer tmo e v w = Some (Continue, v1, w1) \<Longrightarrow>
   sendBuffer_loop buffer tmo e v w = sendBuffer_loop buffer tmo e v1 w1"
  by (subst sendBuffer_loop.simps) simp

lemma loop_stop:
  "sendBuffer_iter buffer tmo e v w = Some (Break, v1, w1) \<Longrightarrow>
   sendBuffer_loop buffer tmo e v w = Some (v1, w1)"
  by (subst sendBuffer_loop.simps) simp

lemma text_of_Nil [simp]: "text_of [] = []"
  by (simp add: text_of_def)

lemma text_of_Cons:
  "text_of (c # cs) =
     (if c = - 1 \<or> c = END_OF_RESPONSE then text_of cs
      else String_of_char (char_of c) @ text_of cs)"
  by (simp add: text_of_def)

lemma text_of_append [simp]: "text_of (cs @ ds) = text_of cs @ text_of ds"
  by (simp add: text_of_def)

lemma count_byte_Suc:
  "unat (a::byte) + Suc k < unat (e::byte) \<Longrightarrow>
     \<not> e \<le> a + 1 \<and> unat (a + 1) = Suc (unat a)"
proof -
  assume h: "unat a + Suc k < unat e"
  with unat_byte_less [of e] have "unat a < 255" by simp
  then have s: "unat (a + 1) = Suc (unat a)" by (simp add: unat_byte_Suc)
  with h show ?thesis by (simp add: word_le_nat_alt)
qed

lemma absorb:
  assumes "\<not> lv_i v < length buffer"
    and "\<forall>p \<in> set ps. pass_ok tmo (lv_startTime v) p"
    and "unat (lv_actualMarkerCount v) + count_list (reads ps) END_OF_RESPONSE < unat e"
  shows "sendBuffer_loop buffer tmo e v
           (w\<lparr>clock := map pass_clock ps @ ts, avail := map pass_avail ps @ ns,
              rxq := reads ps @ cs\<rparr>)
       = sendBuffer_loop buffer tmo e
           (v\<lparr>lv_response := lv_response v @ text_of (reads ps),
              lv_actualMarkerCount :=
                lv_actualMarkerCount v + of_nat (count_list (reads ps) END_OF_RESPONSE)\<rparr>)
           (w\<lparr>clock := ts, avail := ns, rxq := cs,
              markerPos := stored (unat (lv_actualMarkerCount v))
                 (marker_offsets (length (lv_response v)) (reads ps)) (markerPos w)\<rparr>)"
  using assms
proof (induction ps arbitrary: v w)
  case Nil
  then show ?case by simp
next
  case (Cons p ps)
  show ?case
  proof (cases p)
    case (Idle t' n)
    let ?w1 = "w\<lparr>clock := map pass_clock ps @ ts, avail := map pass_avail ps @ ns,
                  rxq := reads ps @ cs\<rparr>"
    from Cons.prems Idle have
      "sendBuffer_iter buffer tmo e v
          (w\<lparr>clock := map pass_clock (p # ps) @ ts, avail := map pass_avail (p # ps) @ ns,
             rxq := reads (p # ps) @ cs\<rparr>)
       = Some (Continue, v, ?w1)"
      by (subst iter_idle [where t' = t' and n = n and ts = "map pass_clock ps @ ts"
            and ns = "map pass_avail ps @ ns"]) simp_all
    from loop_step [OF this] Cons.IH [of v w] Cons.prems Idle show ?thesis by simp
  next
    case (Byte t' n c)
    let ?W = "w\<lparr>clock := map pass_clock (p # ps) @ ts, avail := map pass_avail (p # ps) @ ns,
                  rxq := reads (p # ps) @ cs\<rparr>"
    from Cons.prems Byte have pre:
      "\<not> lv_i v < length buffer" "clock ?W = t' # (map pass_clock ps @ ts)"
      "\<not> t' - lv_startTime v > tmo" "avail ?W = n # (map pass_avail ps @ ns)" "0 < n"
      "rxq ?W = c # (reads ps @ cs)"
      by simp_all
    consider (skip) "c = - 1" | (marker) "c = END_OF_RESPONSE" | (char) "c \<noteq> - 1" "c \<noteq> END_OF_RESPONSE"
      by blast
    then show ?thesis
    proof cases
      case skip
      from iter_skip [OF pre(1-5) pre(6) [unfolded skip]]
      have "sendBuffer_iter buffer tmo e v ?W
            = Some (Continue, v, ?W\<lparr>clock := map pass_clock ps @ ts,
                 avail := map pass_avail ps @ ns, rxq := reads ps @ cs\<rparr>)" .
      from loop_step [OF this] Cons.IH [of v w] Cons.prems Byte skip show ?thesis
        by (simp add: END_OF_RESPONSE_def text_of_Cons)
    next
      case marker
      let ?a = "lv_actualMarkerCount v"
      let ?v1 = "v\<lparr>lv_actualMarkerCount := ?a + 1\<rparr>"
      let ?mp1 = "if ?a < 5 then (markerPos w)[unat ?a := of_nat (length (lv_response v))]
                  else markerPos w"
      from Cons.prems(3) Byte marker have
        lt: "unat ?a + Suc (count_list (reads ps) END_OF_RESPONSE) < unat e" by simp
      from count_byte_Suc [OF lt] have nb: "\<not> e \<le> ?a + 1" and su: "unat (?a + 1) = Suc (unat ?a)"
        by simp_all
      from iter_marker [OF pre(1-5) pre(6) [unfolded marker END_OF_RESPONSE_def], of e] nb
      have "sendBuffer_iter buffer tmo e v ?W
            = Some (Continue, ?v1, (w\<lparr>markerPos := ?mp1\<rparr>)\<lparr>clock := map pass_clock ps @ ts,
                 avail := map pass_avail ps @ ns, rxq := reads ps @ cs\<rparr>)"
        by simp
      note st = loop_step [OF this]
      have a5: "(?a < 5) = (unat ?a < 5)" by (simp add: word_less_nat_alt)
      from Cons.prems Byte lt su have
        "sendBuffer_loop buffer tmo e ?v1
           ((w\<lparr>markerPos := ?mp1\<rparr>)\<lparr>clock := map pass_clock ps @ ts,
              avail := map pass_avail ps @ ns, rxq := reads ps @ cs\<rparr>)
         = sendBuffer_loop buffer tmo e
           (?v1\<lparr>lv_response := lv_response ?v1 @ text_of (reads ps),
              lv_actualMarkerCount :=
                lv_actualMarkerCount ?v1 + of_nat (count_list (reads ps) END_OF_RESPONSE)\<rparr>)
           ((w\<lparr>markerPos := ?mp1\<rparr>)\<lparr>clock := ts, avail := ns, rxq := cs,
              markerPos := stored (unat (lv_actualMarkerCount ?v1))
                 (marker_offsets (length (lv_response ?v1)) (reads ps))
                 (markerPos (w\<lparr>markerPos := ?mp1\<rparr>))\<rparr>)"
        by (intro Cons.IH) simp_all
      with st Byte marker su a5 show ?thesis
        by (simp add: text_of_Cons add.assoc)
    next
      case char
      let ?v1 = "v\<lparr>lv_response := lv_response v @ String_of_char (char_of c)\<rparr>"
      from char have c13: "c \<noteq> 13" by (simp add: END_OF_RESPONSE_def)
      from iter_char [OF pre(1-6) char(1) c13]
      have "sendBuffer_iter buffer tmo e v ?W
            = Some (Continue, ?v1, ?W\<lparr>clock := map pass_clock ps @ ts,
                 avail := map pass_avail ps @ ns, rxq := reads ps @ cs\<rparr>)" .
      note st = loop_step [OF this]
      from Cons.prems Byte char have
        "sendBuffer_loop buffer tmo e ?v1
           (w\<lparr>clock := map pass_clock ps @ ts, avail := map pass_avail ps @ ns,
              rxq := reads ps @ cs\<rparr>)
         = sendBuffer_loop buffer tmo e
           (?v1\<lparr>lv_response := lv_response ?v1 @ text_of (reads ps),
              lv_actualMarkerCount :=
                lv_actualMarkerCount ?v1 + of_nat (count_list (reads ps) END_OF_RESPONSE)\<rparr>)
           (w\<lparr>clock := ts, avail := ns, rxq := cs,
              markerPos := stored (unat (lv_actualMarkerCount ?v1))
                 (marker_offsets (length (lv_response ?v1)) (reads ps)) (markerPos w)\<rparr>)"
        by (intro Cons.IH) simp_all
      with st Byte char show ?thesis
        by (simp add: text_of_Cons)
    qed
  qed
qed

lemma sendBuffer_enter:
  assumes "\<not> useEmulator this"
  shows "sendBuffer this buffer timeout e a (exchange buffer t ps w) =
    map_option (\<lambda>(v, w'). sendBuffer_report buffer e v w')
      (sendBuffer_loop buffer (word_of_int timeout) e
        \<lparr>lv_i = length buffer, lv_startTime = t, lv_response = [], lv_actualMarkerCount = 0\<rparr>
        (w\<lparr>echoOut := echoOut w @ [Println ('' - Wisol.sendBuffer: '' @ buffer)],
           serialOps := serialOps w @ [Begin MODEM_BITS_PER_SECOND, Flush, Listen]
                          @ map (\<lambda>c. Write (of_char c)) buffer,
           clock := map pass_clock ps @ clock w, avail := map pass_avail ps @ avail w,
           rxq := reads ps @ rxq w\<rparr>))"
proof -
  let ?v0 = "\<lparr>lv_i = 0, lv_startTime = t, lv_response = [], lv_actualMarkerCount = 0\<rparr>"
  let ?w3 = "w\<lparr>echoOut := echoOut w @ [Println ('' - Wisol.sendBuffer: '' @ buffer)],
           serialOps := serialOps w @ [Begin MODEM_BITS_PER_SECOND, Flush, Listen],
           clock := replicate (2 * length buffer) t @ map pass_clock ps @ clock w,
           avail := replicate (length buffer) 0 @ map pass_avail ps @ avail w,
           rxq := reads ps @ rxq w\<rparr>"
  let ?v1 = "\<lparr>lv_i = length buffer, lv_startTime = t, lv_response = [],
              lv_actualMarkerCount = 0\<rparr>"
  let ?w4 = "w\<lparr>echoOut := echoOut w @ [Println ('' - Wisol.sendBuffer: '' @ buffer)],
           serialOps := serialOps w @ [Begin MODEM_BITS_PER_SECOND, Flush, Listen]
                          @ map (\<lambda>c. Write (of_char c)) buffer,
           clock := map pass_clock ps @ clock w, avail := map pass_avail ps @ avail w,
           rxq := reads ps @ rxq w\<rparr>"
  have sent: "sendBuffer_loop buffer (word_of_int timeout) e ?v0 ?w3
            = sendBuffer_loop buffer (word_of_int timeout) e ?v1 ?w4"
  proof (cases "buffer = []")
    case True
    then show ?thesis by simp
  next
    case False
    have "sendBuffer_loop buffer (word_of_int timeout) e ?v0 ?w3 =
       sendBuffer_loop buffer (word_of_int timeout) e
         (?v0\<lparr>lv_i := length buffer, lv_startTime := t\<rparr>)
         (?w3\<lparr>serialOps := serialOps ?w3 @ map (\<lambda>c. Write (of_char c)) (drop (lv_i ?v0) buffer),
              clock := map pass_clock ps @ clock w, avail := map pass_avail ps @ avail w\<rparr>)"
      using False by (intro loop_send_quiet [where n = "length buffer"]) simp_all
    moreover have "?v0\<lparr>lv_i := length buffer, lv_startTime := t\<rparr> = ?v1" by simp
    moreover have
      "?w3\<lparr>serialOps := serialOps ?w3 @ map (\<lambda>c. Write (of_char c)) (drop (lv_i ?v0) buffer),
          clock := map pass_clock ps @ clock w, avail := map pass_avail ps @ avail w\<rparr> = ?w4"
      by simp
    ultimately show ?thesis by (simp only:)
  qed
  have "millis (serial Listen (serial Flush (serial (Begin MODEM_BITS_PER_SECOND)
          (echo (Println ('' - Wisol.sendBuffer: '' @ buffer)) (exchange buffer t ps w)))))
        = Some (t, ?w3)"
    by (simp add: millis_def serial_def echo_def exchange_def)
  with assms have "sendBuffer this buffer timeout e a (exchange buffer t ps w)
      = map_option (\<lambda>(v, w'). sendBuffer_report buffer e v w')
          (sendBuffer_loop buffer (word_of_int timeout) e ?v0 ?w3)"
    by (simp add: sendBuffer_def Let_def map_option_case split: option.splits)
  with sent show ?thesis by (simp only:)
qed

lemma length_marker_offsets:
  "length (marker_offsets n cs) = count_list cs END_OF_RESPONSE"
  by (induction cs arbitrary: n) simp_all

lemma marker_offsets_append:
  "marker_offsets n (cs @ ds)
     = marker_offsets n cs @ marker_offsets (n + length (text_of cs)) ds"
  by (induction cs arbitrary: n) (simp_all add: text_of_Cons add.assoc)

lemma marker_offsets_bounds:
  "x \<in> set (marker_offsets n cs) \<Longrightarrow> n \<le> x \<and> x \<le> n + length (text_of cs)"
proof (induction cs arbitrary: n)
  case Nil
  then show ?case by simp
next
  case (Cons c cs)
  show ?case
  proof (cases "c = END_OF_RESPONSE")
    case True
    with Cons.prems Cons.IH [of n] show ?thesis by (auto simp: text_of_Cons)
  next
    case False
    with Cons.prems Cons.IH [of "n + length (text_of [c])"] show ?thesis
      by (auto simp: text_of_Cons)
  qed
qed

lemma sorted_marker_offsets: "sorted (marker_offsets n cs)"
proof (induction cs arbitrary: n)
  case Nil
  then show ?case by simp
next
  case (Cons c cs)
  then show ?case by (auto dest: marker_offsets_bounds)
qed

lemma stored_append: "stored k (xs @ ys) mp = stored (k + length xs) ys (stored k xs mp)"
  by (induction xs arbitrary: k mp) simp_all

lemma length_stored [simp]: "length (stored k offs mp) = length mp"
  by (induction offs arbitrary: k mp) simp_all

lemma stored_full: "5 \<le> k \<Longrightarrow> stored k offs mp = mp"
  by (induction offs arbitrary: k) simp_all

lemma stored_take_drop:
  "k \<le> 5 \<Longrightarrow> 5 \<le> length mp \<Longrightarrow>
     stored k offs mp
       = take k mp @ map of_nat (take (5 - k) offs) @ drop (min 5 (k + length offs)) mp"
proof (induction offs arbitrary: k mp)
  case Nil
  then show ?case by (simp add: min_def)
next
  case (Cons off offs)
  show ?case
  proof (cases "k < 5")
    case True
    with Cons.prems have kl: "k < length mp" by simp
    from True Cons.prems have
      "stored (Suc k) offs (mp[k := of_nat off])
         = take (Suc k) (mp[k := of_nat off]) @ map of_nat (take (5 - Suc k) offs)
             @ drop (min 5 (Suc k + length offs)) (mp[k := of_nat off])"
      by (intro Cons.IH) simp_all
    moreover from kl have "take (Suc k) (mp[k := of_nat off]) = take k mp @ [of_nat off]"
      by (simp add: take_Suc_conv_app_nth)
    moreover from True have "drop (min 5 (Suc k + length offs)) (mp[k := of_nat off])
        = drop (min 5 (Suc k + length offs)) mp"
      by (simp add: min_def)
    moreover from True have "5 - k = Suc (5 - Suc k)" by simp
    then have "take (5 - k) (off # offs) = off # take (5 - Suc k) offs"
      by (simp only: take_Suc_Cons)
    ultimately show ?thesis using True by simp
  next
    case False
    with Cons.prems have "k = 5" by simp
    then show ?thesis by (simp add: stored_full)
  qed
qed

lemma reads_append [simp]: "reads (ps @ qs) = reads ps @ reads qs"
  by (induction ps rule: reads.induct) simp_all

lemma unat_of_nat_byte: "n < 256 \<Longrightarrow> unat (of_nat n :: byte) = n"
  by (simp add: unat_of_nat)

lemma count_as_byte:
  assumes "count_list cs END_OF_RESPONSE < unat (e::byte)"
  shows "unat (of_nat (count_list cs END_OF_RESPONSE) :: byte) = count_list cs END_OF_RESPONSE"
  using assms unat_byte_less [of e] by (simp add: unat_of_nat_byte)

lemma sendBuffer_arrival:
  assumes ne: "\<not> useEmulator this"
    and ok: "\<forall>p \<in> set ps. pass_ok (word_of_int timeout) t p"
    and cnt: "Suc (count_list (reads ps) END_OF_RESPONSE) = unat e"
    and last: "\<not> t' - t > word_of_int timeout" "0 < n"
  shows "sendBuffer this buffer timeout e a
           (exchange buffer t (ps @ [Byte t' n END_OF_RESPONSE]) w)
       = Some (True, text_of (reads ps), e,
           w\<lparr>serialOps := serialOps w @ [Begin MODEM_BITS_PER_SECOND, Flush, Listen]
                 @ map (\<lambda>c. Write (of_char c)) buffer @ [End],
             echoOut := echoOut w @
                [Println ('' - Wisol.sendBuffer: '' @ buffer),
                 LogBuffer ''>> '' buffer [] 0,
                 LogBuffer ''<< '' (text_of (reads ps))
                   (stored 0 (marker_offsets 0 (reads ps @ [END_OF_RESPONSE])) (markerPos w)) e,
                 Println ('' - Wisol.sendBuffer: response: '' @ text_of (reads ps))],
             markerPos :=
               stored 0 (marker_offsets 0 (reads ps @ [END_OF_RESPONSE])) (markerPos w)\<rparr>)"
proof -
  let ?tmo = "word_of_int timeout :: ulong"
  let ?k = "count_list (reads ps) END_OF_RESPONSE"
  let ?offs = "marker_offsets 0 (reads ps)"
  let ?r = "text_of (reads ps)"
  let ?w1 = "w\<lparr>echoOut := echoOut w @ [Println ('' - Wisol.sendBuffer: '' @ buffer)],
           serialOps := serialOps w @ [Begin MODEM_BITS_PER_SECOND, Flush, Listen]
                          @ map (\<lambda>c. Write (of_char c)) buffer\<rparr>"
  let ?v1 = "\<lparr>lv_i = length buffer, lv_startTime = t, lv_response = [],
              lv_actualMarkerCount = 0\<rparr>"
  let ?v2 = "\<lparr>lv_i = length buffer, lv_startTime = t, lv_response = ?r,
              lv_actualMarkerCount = of_nat ?k\<rparr>"
  let ?w2 = "?w1\<lparr>clock := t' # clock w, avail := n # avail w,
               rxq := END_OF_RESPONSE # rxq w, markerPos := stored 0 ?offs (markerPos w)\<rparr>"
  let ?mp = "stored 0 (marker_offsets 0 (reads ps @ [END_OF_RESPONSE])) (markerPos w)"
  let ?v3 = "\<lparr>lv_i = length buffer, lv_startTime = t, lv_response = ?r,
              lv_actualMarkerCount = e\<rparr>"
  let ?w3 = "?w1\<lparr>clock := clock w, avail := avail w, rxq := rxq w, markerPos := ?mp\<rparr>"
  from cnt have klt: "?k < unat e" by simp
  note ku = count_as_byte [OF klt]
  from cnt unat_byte_less [of e] have "?k < 255" by simp
  with ku have "unat (of_nat ?k + 1 :: byte) = Suc ?k" by (simp add: unat_byte_Suc)
  with cnt have e: "of_nat ?k + 1 = e" by (simp add: word_unat_eq_iff)
  have enter: "sendBuffer this buffer timeout e a
           (exchange buffer t (ps @ [Byte t' n END_OF_RESPONSE]) w)
       = map_option (\<lambda>(v, w'). sendBuffer_report buffer e v w')
           (sendBuffer_loop buffer ?tmo e ?v1
              (?w1\<lparr>clock := map pass_clock ps @ (t' # clock w),
                   avail := map pass_avail ps @ (n # avail w),
                   rxq := reads ps @ (END_OF_RESPONSE # rxq w)\<rparr>))"
    by (simp add: sendBuffer_enter [OF ne])
  have "sendBuffer_loop buffer ?tmo e ?v1
          (?w1\<lparr>clock := map pass_clock ps @ (t' # clock w),
               avail := map pass_avail ps @ (n # avail w),
               rxq := reads ps @ (END_OF_RESPONSE # rxq w)\<rparr>)
      = sendBuffer_loop buffer ?tmo e
          (?v1\<lparr>lv_response := lv_response ?v1 @ text_of (reads ps),
              lv_actualMarkerCount := lv_actualMarkerCount ?v1 + of_nat ?k\<rparr>)
          (?w1\<lparr>clock := t' # clock w, avail := n # avail w, rxq := END_OF_RESPONSE # rxq w,
              markerPos := stored (unat (lv_actualMarkerCount ?v1))
                 (marker_offsets (length (lv_response ?v1)) (reads ps)) (markerPos ?w1)\<rparr>)"
    using ok klt by (intro absorb) simp_all
  then have absorbed: "sendBuffer_loop buffer ?tmo e ?v1
          (?w1\<lparr>clock := map pass_clock ps @ (t' # clock w),
               avail := map pass_avail ps @ (n # avail w),
               rxq := reads ps @ (END_OF_RESPONSE # rxq w)\<rparr>)
      = sendBuffer_loop buffer ?tmo e ?v2 ?w2"
    by simp
  have mp: "?mp = (if (of_nat ?k :: byte) < 5
             then (stored 0 ?offs (markerPos w))[unat (of_nat ?k :: byte) := of_nat (length ?r)]
             else stored 0 ?offs (markerPos w))"
    by (simp add: marker_offsets_append stored_append length_marker_offsets ku
        word_less_nat_alt)
  have step: "sendBuffer_iter buffer ?tmo e ?v2 ?w2
      = Some (if e \<le> lv_actualMarkerCount ?v2 + 1 then Break else Continue,
              ?v2\<lparr>lv_actualMarkerCount := lv_actualMarkerCount ?v2 + 1\<rparr>,
              ?w2\<lparr>clock := clock w, avail := avail w, rxq := rxq w,
                 markerPos := (if lv_actualMarkerCount ?v2 < 5
                               then (markerPos ?w2)[unat (lv_actualMarkerCount ?v2)
                                                   := of_nat (length (lv_response ?v2))]
                               else markerPos ?w2)\<rparr>)"
    using last by (intro iter_marker [where t' = t' and n = n]) (simp_all add: END_OF_RESPONSE_def)
  have c1: "(if e \<le> lv_actualMarkerCount ?v2 + 1 then Break else Continue) = Break"
    by (simp add: e)
  have c2: "?v2\<lparr>lv_actualMarkerCount := lv_actualMarkerCount ?v2 + 1\<rparr> = ?v3"
    by (simp add: e)
  have c3: "?w2\<lparr>clock := clock w, avail := avail w, rxq := rxq w,
                 markerPos := (if lv_actualMarkerCount ?v2 < 5
                               then (markerPos ?w2)[unat (lv_actualMarkerCount ?v2)
                                                   := of_nat (length (lv_response ?v2))]
                               else markerPos ?w2)\<rparr> = ?w3"
    by (subst mp) simp
  from step have "sendBuffer_iter buffer ?tmo e ?v2 ?w2 = Some (Break, ?v3, ?w3)"
    by (simp only: c1 c2 c3)
  from loop_stop [OF this] absorbed enter show ?thesis
    by (simp add: sendBuffer_report_def Let_def serial_def echo_def)
qed

lemma sendBuffer_timeout:
  assumes ne: "\<not> useEmulator this"
    and ok: "\<forall>p \<in> set ps. pass_ok (word_of_int timeout) t p"
    and cnt: "count_list (reads ps) END_OF_RESPONSE < unat e"
    and late: "t' - t > word_of_int timeout"
  shows "sendBuffer this buffer timeout e a (exchange buffer t ps (tick t' w))
       = Some (False, text_of (reads ps), of_nat (count_list (reads ps) END_OF_RESPONSE),
           w\<lparr>serialOps := serialOps w @ [Begin MODEM_BITS_PER_SECOND, Flush, Listen]
                 @ map (\<lambda>c. Write (of_char c)) buffer @ [End],
             echoOut := echoOut w @
                [Println ('' - Wisol.sendBuffer: '' @ buffer),
                 LogBuffer ''>> '' buffer [] 0,
                 LogBuffer ''<< '' (text_of (reads ps))
                   (stored 0 (marker_offsets 0 (reads ps)) (markerPos w))
                   (of_nat (count_list (reads ps) END_OF_RESPONSE)),
                 if length (text_of (reads ps)) = 0
                 then Println '' - Wisol.sendBuffer: Error: No response''
                 else Println ('' - Wisol.sendBuffer: Error: Unknown response: ''
                                @ text_of (reads ps))],
             markerPos := stored 0 (marker_offsets 0 (reads ps)) (markerPos w)\<rparr>)"
proof -
  let ?tmo = "word_of_int timeout :: ulong"
  let ?k = "count_list (reads ps) END_OF_RESPONSE"
  let ?mp = "stored 0 (marker_offsets 0 (reads ps)) (markerPos w)"
  let ?r = "text_of (reads ps)"
  let ?w1 = "w\<lparr>echoOut := echoOut w @ [Println ('' - Wisol.sendBuffer: '' @ buffer)],
           serialOps := serialOps w @ [Begin MODEM_BITS_PER_SECOND, Flush, Listen]
                          @ map (\<lambda>c. Write (of_char c)) buffer\<rparr>"
  let ?v1 = "\<lparr>lv_i = length buffer, lv_startTime = t, lv_response = [],
              lv_actualMarkerCount = 0\<rparr>"
  let ?v2 = "\<lparr>lv_i = length buffer, lv_startTime = t, lv_response = ?r,
              lv_actualMarkerCount = of_nat ?k\<rparr>"
  let ?w2 = "?w1\<lparr>clock := t' # clock w, avail := avail w, rxq := rxq w, markerPos := ?mp\<rparr>"
  let ?w3 = "?w1\<lparr>clock := clock w, avail := avail w, rxq := rxq w, markerPos := ?mp\<rparr>"
  note ku = count_as_byte [OF cnt]
  from cnt ku have lt: "(of_nat ?k :: byte) < e" by (simp add: word_less_nat_alt)
  have enter: "sendBuffer this buffer timeout e a (exchange buffer t ps (tick t' w))
       = map_option (\<lambda>(v, w'). sendBuffer_report buffer e v w')
           (sendBuffer_loop buffer ?tmo e ?v1
              (?w1\<lparr>clock := map pass_clock ps @ (t' # clock w),
                   avail := map pass_avail ps @ avail w,
                   rxq := reads ps @ rxq w\<rparr>))"
    by (simp add: sendBuffer_enter [OF ne] tick_def)
  have "sendBuffer_loop buffer ?tmo e ?v1
          (?w1\<lparr>clock := map pass_clock ps @ (t' # clock w),
               avail := map pass_avail ps @ avail w,
               rxq := reads ps @ rxq w\<rparr>)
      = sendBuffer_loop buffer ?tmo e
          (?v1\<lparr>lv_response := lv_response ?v1 @ text_of (reads ps),
              lv_actualMarkerCount := lv_actualMarkerCount ?v1 + of_nat ?k\<rparr>)
          (?w1\<lparr>clock := t' # clock w, avail := avail w, rxq := rxq w,
              markerPos := stored (unat (lv_actualMarkerCount ?v1))
                 (marker_offsets (length (lv_response ?v1)) (reads ps)) (markerPos ?w1)\<rparr>)"
    using ok cnt by (intro absorb) simp_all
  then have absorbed: "sendBuffer_loop buffer ?tmo e ?v1
          (?w1\<lparr>clock := map pass_clock ps @ (t' # clock w),
               avail := map pass_avail ps @ avail w,
               rxq := reads ps @ rxq w\<rparr>)
      = sendBuffer_loop buffer ?tmo e ?v2 ?w2"
    by simp
  have "sendBuffer_iter buffer ?tmo e ?v2 ?w2 = Some (Break, ?v2, ?w2\<lparr>clock := clock w\<rparr>)"
    using late by (intro iter_timeout [where t' = t']) simp_all
  then have "sendBuffer_iter buffer ?tmo e ?v2 ?w2 = Some (Break, ?v2, ?w3)"
    by simp
  from loop_stop [OF this] absorbed enter lt show ?thesis
    by (simp add: sendBuffer_report_def Let_def serial_def echo_def)
qed

subsection \<open>The result of an exchange\<close>

lemma stored_first_five:
  "5 \<le> length mp \<Longrightarrow>
     stored 0 offs mp = map of_nat (take 5 offs) @ drop (min 5 (length offs)) mp"
  using stored_take_drop [of 0 mp offs] by simp

lemma sendBuffer_arrives:
  assumes "\<not> useEmulator this"
    and "\<forall>p \<in> set ps. pass_ok (word_of_int timeout) t p"
    and "Suc (count_list (reads ps) END_OF_RESPONSE) = unat e"
    and "\<not> t' - t > word_of_int timeout" and "0 < n"
    and "5 \<le> length (markerPos w)"
  shows "sendBuffer this buffer timeout e a
           (exchange buffer t (ps @ [Byte t' n END_OF_RESPONSE]) w)
       = Some (True, text_of (reads ps), e,
           after_exchange buffer (text_of (reads ps)) e
             (marker_offsets 0 (reads ps @ [END_OF_RESPONSE]))
             (verdict_ok (text_of (reads ps))) w)"
  using sendBuffer_arrival [OF assms(1-5), of buffer a w] assms(6)
  by (simp add: after_exchange_def verdict_ok_def stored_first_five)

lemma sendBuffer_times_out:
  assumes "\<not> useEmulator this"
    and "\<forall>p \<in> set ps. pass_ok (word_of_int timeout) t p"
    and "count_list (reads ps) END_OF_RESPONSE < unat e"
    and "t' - t > word_of_int timeout"
    and "5 \<le> length (markerPos w)"
  shows "sendBuffer this buffer timeout e a (exchange buffer t ps (tick t' w))
       = Some (False, text_of (reads ps), of_nat (count_list (reads ps) END_OF_RESPONSE),
           after_exchange buffer (text_of (reads ps))
             (of_nat (count_list (reads ps) END_OF_RESPONSE))
             (marker_offsets 0 (reads ps))
             (verdict_failed (text_of (reads ps))) w)"
  using sendBuffer_timeout [OF assms(1-4), of buffer a w] assms(5)
  by (simp add: after_exchange_def verdict_failed_def stored_first_five)



lemmas scenario_defs = seven_def twice_def fresh_def sim_def CMD_END_def END_OF_RESPONSE_def
  text_of_def String_of_char_def char_of_eq_iff after_exchange_def verdict_ok_def
  verdict_failed_def MODEM_BITS_PER_SECOND_def


subsection \<open>The recorded positions\<close>

lemma recorded_taken: "recorded a w = taken a (markerPos w)"
  by (simp add: recorded_def taken_def)

lemma sendBuffer_positions:
  assumes "\<not> useEmulator this"
    and "sendBuffer this buffer timeout e a w = Some (ok, response, actual, w')"
    and "length (markerPos w) = 5" and "length response \<le> 255"
  shows "sorted (recorded actual w') \<and> (\<forall>p \<in> set (recorded actual w'). p \<le> length response)"
proof -
  from sendBuffer_SomeD [OF assms(2,1)] obtain startTime w3 v w4 where
    m: "millis (serial Listen (serial Flush (serial (Begin MODEM_BITS_PER_SECOND)
        (echo (Println ('' - Wisol.sendBuffer: '' @ buffer)) w)))) = Some (startTime, w3)"
    and run: "sendBuffer_loop buffer (word_of_int timeout) e
          \<lparr>lv_i = 0, lv_startTime = startTime, lv_response = [], lv_actualMarkerCount = 0\<rparr> w3
         = Some (v, w4)"
    and rep: "sendBuffer_report buffer e v w4 = (ok, response, actual, w')"
    by blast
  from sendBuffer_report_eq [OF rep] have
    res: "actual = lv_actualMarkerCount v" "response = lv_response v"
      "markerPos w' = markerPos w4"
    by simp_all
  from m have w3: "markerPos w3 = markerPos w"
    by (auto simp: serial_def echo_def elim!: millis_SomeE)
  with assms(3) have
    "positions_ok \<lparr>lv_i = 0, lv_startTime = startTime, lv_response = [],
        lv_actualMarkerCount = 0\<rparr> w3"
    by (simp add: positions_ok_def taken_def)
  from loop_positions [OF run _ this] have "positions_ok v w4" by (simp add: below_def)
  with assms(4) res show ?thesis by (simp add: positions_ok_def recorded_taken)
qed

lemma map_unat_of_nat: "\<forall>x \<in> set xs. x < 256 \<Longrightarrow> map unat (map of_nat xs :: byte list) = xs"
  by (induction xs) (simp_all add: unat_of_nat_byte)

lemma recorded_after_exchange:
  assumes "length offs = unat actual" and "\<forall>x \<in> set offs. x < 256"
  shows "recorded actual (after_exchange buffer response actual offs verdict w) = take 5 offs"
proof -
  from assms(2) have "\<forall>x \<in> set (take 5 offs). x < 256" by (auto dest: in_set_takeD)
  from map_unat_of_nat [OF this] assms(1) show ?thesis
    by (simp add: recorded_def after_exchange_def unat_markerPosMax min.commute)
qed

lemma sendBuffer_arrives_positions:
  assumes "\<not> useEmulator this"
    and "\<forall>p \<in> set ps. pass_ok (word_of_int timeout) t p"
    and "Suc (count_list (reads ps) END_OF_RESPONSE) = unat e"
    and "\<not> t' - t > word_of_int timeout" and "0 < n"
    and "5 \<le> length (markerPos w)"
    and "length (text_of (reads ps)) \<le> 255"
  shows "final_positions (sendBuffer this buffer timeout e a
            (exchange buffer t (ps @ [Byte t' n END_OF_RESPONSE]) w))
       = Some (take 5 (marker_offsets 0 (reads ps @ [END_OF_RESPONSE])))"
proof -
  let ?offs = "marker_offsets 0 (reads ps @ [END_OF_RESPONSE])"
  from assms(3) have len: "length ?offs = unat e"
    by (simp add: length_marker_offsets)
  have "\<forall>x \<in> set ?offs. x < 256"
  proof
    fix x assume "x \<in> set ?offs"
    from marker_offsets_bounds [OF this] assms(7) show "x < 256"
      by (simp add: text_of_def)
  qed
  from recorded_after_exchange [OF len this] sendBuffer_arrives [OF assms(1-6)]
  show ?thesis by (simp add: final_positions_def)
qed

text \<open>
  Claim C5, amended. The positions that an exchange records,
  \<open>markerPos[0 .. min(actualMarkerCount, 5) - 1]\<close>, are in ascending order, and not strictly
  so: a terminator is not appended to the response, so terminators with no text between
  them have the same offset. No recorded position lies beyond the end of the response.
  This holds while the response has at most 255 characters (a position is a \<open>uint8_t\<close>).
  For an exchange whose terminators arrive in time, the recorded positions are the offsets
  of the first five terminators in the text received.
\<close>

theorem recorded_positions_ascending:
  assumes "\<not> useEmulator this"
  shows
    "(sendBuffer this buffer timeout e a w = Some (ok, response, actual, w')
        \<and> length (markerPos w) = 5 \<and> length response \<le> 255 \<longrightarrow>
        sorted (recorded actual w') \<and> (\<forall>p \<in> set (recorded actual w'). p \<le> length response))
     \<and> ((\<forall>p \<in> set ps. pass_ok (word_of_int timeout) t p)
          \<and> Suc (count_list (reads ps) END_OF_RESPONSE) = unat e
          \<and> \<not> t' - t > word_of_int timeout \<and> 0 < n \<and> 5 \<le> length (markerPos w)
          \<and> length (text_of (reads ps)) \<le> 255 \<longrightarrow>
        final_positions (sendBuffer this buffer timeout e a
            (exchange buffer t (ps @ [Byte t' n END_OF_RESPONSE]) w))
          = Some (take 5 (marker_offsets 0 (reads ps @ [END_OF_RESPONSE])))
        \<and> sorted (take 5 (marker_offsets 0 (reads ps @ [END_OF_RESPONSE]))))"
proof (intro conjI impI)
  assume "sendBuffer this buffer timeout e a w = Some (ok, response, actual, w')
        \<and> length (markerPos w) = 5 \<and> length response \<le> 255"
  with sendBuffer_positions [OF assms, of buffer timeout e a w ok response actual w']
  show "sorted (recorded actual w')" and "\<forall>p \<in> set (recorded actual w'). p \<le> length response"
    by simp_all
next
  assume "(\<forall>p \<in> set ps. pass_ok (word_of_int timeout) t p)
          \<and> Suc (count_list (reads ps) END_OF_RESPONSE) = unat e
          \<and> \<not> t' - t > word_of_int timeout \<and> 0 < n \<and> 5 \<le> length (markerPos w)
          \<and> length (text_of (reads ps)) \<le> 255"
  with sendBuffer_arrives_positions [OF assms, of ps timeout t e t' n w buffer a]
  show "final_positions (sendBuffer this buffer timeout e a
            (exchange buffer t (ps @ [Byte t' n END_OF_RESPONSE]) w))
          = Some (take 5 (marker_offsets 0 (reads ps @ [END_OF_RESPONSE])))"
    by simp
next
  show "sorted (take 5 (marker_offsets 0 (reads ps @ [END_OF_RESPONSE])))"
    by (rule sorted_wrt_take) (rule sorted_marker_offsets)
qed

text \<open>
  The positions are not strictly increasing: when \<open>OK\<close> is followed by two terminators,
  both are recorded at offset 2.
\<close>

theorem recorded_positions_not_strict:
  "final_positions (sendBuffer (fresh False 0) (''AT$I=10'' @ CMD_END) 2000 2 0
       (exchange (''AT$I=10'' @ CMD_END) 100 (twice @ [Byte 140 1 END_OF_RESPONSE])
          (sim [] [] [])))
     = Some [2, 2]
   \<and> \<not> sorted_wrt (<) [2, 2 :: nat]"
proof -
  have ne: "\<not> useEmulator (fresh False 0)" by (simp add: fresh_def)
  from sendBuffer_arrives_positions [OF ne, where ps = twice and timeout = 2000 and t = 100
      and e = 2 and t' = 140 and n = 1 and w = "sim [] [] []"
      and buffer = "''AT$I=10'' @ CMD_END" and a = 0]
  show ?thesis by (simp add: scenario_defs)
qed

text \<open>
  The seven terminators of the run above: the five recorded positions are 2, 3, 4, 5, 6.
  And the positions 2, 2 that \<open>OK\<close> and two terminators leave are in ascending order.
\<close>

theorem recorded_positions_ascending_witness:
  "final_positions (sendBuffer (fresh False 0) (''AT$I=10'' @ CMD_END) 2000 7 0
       (exchange (''AT$I=10'' @ CMD_END) 100 (seven @ [Byte 260 1 END_OF_RESPONSE])
          (sim [] [] [])))
     = Some [2, 3, 4, 5, 6]
   \<and> sorted [2, 3, 4, 5, 6 :: nat]
   \<and> sendBuffer (fresh False 0) (''AT$I=10'' @ CMD_END) 2000 7 0
       (exchange (''AT$I=10'' @ CMD_END) 100 (seven @ [Byte 260 1 END_OF_RESPONSE])
          (sim [] [] [])) \<noteq> None
   \<and> sorted (recorded 2
        (after_exchange (''AT$I=10'' @ CMD_END) ''OK'' 2 [2, 2]
           (verdict_ok ''OK'') (sim [] [] [])))
   \<and> recorded 2
        (after_exchange (''AT$I=10'' @ CMD_END) ''OK'' 2 [2, 2]
           (verdict_ok ''OK'') (sim [] [] [])) = [2, 2]"
proof -
  let ?W0 = "exchange (''AT$I=10'' @ CMD_END) 100 (twice @ [Byte 140 1 END_OF_RESPONSE])
          (sim [] [] [])"
  let ?W2 = "after_exchange (''AT$I=10'' @ CMD_END) ''OK'' 2 [2, 2]
           (verdict_ok ''OK'') (sim [] [] [])"
  have ne: "\<not> useEmulator (fresh False 0)" by (simp add: fresh_def)
  from recorded_positions_ascending [OF ne, where ps = seven and timeout = 2000 and t = 100
      and e = 7 and t' = 260 and n = 1 and w = "sim [] [] []"
      and buffer = "''AT$I=10'' @ CMD_END" and a = 0]
  have fp: "final_positions (sendBuffer (fresh False 0) (''AT$I=10'' @ CMD_END) 2000 7 0
       (exchange (''AT$I=10'' @ CMD_END) 100 (seven @ [Byte 260 1 END_OF_RESPONSE])
          (sim [] [] [])))
     = Some [2, 3, 4, 5, 6]"
    by (simp add: scenario_defs)
  have arrives: "sendBuffer (fresh False 0) (''AT$I=10'' @ CMD_END) 2000 2 0 ?W0
      = Some (True, ''OK'', 2, ?W2)"
    using sendBuffer_arrives [OF ne, where ps = twice and timeout = 2000 and t = 100
      and e = 2 and t' = 140 and n = 1 and w = "sim [] [] []"
      and buffer = "''AT$I=10'' @ CMD_END" and a = 0]
    by (simp add: scenario_defs)
  have len: "length (markerPos ?W0) = 5" "length ''OK'' \<le> 255"
    by (simp_all add: exchange_def sim_def)
  note returned = recorded_positions_ascending [OF ne, where buffer = "''AT$I=10'' @ CMD_END"
      and timeout = 2000 and e = 2 and a = 0 and w = ?W0 and ok = True
      and response = "''OK''" and actual = 2 and w' = ?W2, THEN conjunct1, rule_format]
  from returned [OF conjI [OF arrives conjI [OF len]]]
  have srt: "sorted (recorded 2 ?W2)" by (rule conjunct1)
  have rec: "recorded 2 ?W2 = [2, 2]"
    by (simp add: recorded_def after_exchange_def markerPosMax_def sim_def)
  from fp have ret: "sendBuffer (fresh False 0) (''AT$I=10'' @ CMD_END) 2000 7 0
       (exchange (''AT$I=10'' @ CMD_END) 100 (seven @ [Byte 260 1 END_OF_RESPONSE])
          (sim [] [] [])) \<noteq> None"
    by (auto simp: final_positions_def)
  have s5: "sorted [2, 3, 4, 5, 6 :: nat]" by simp
  show ?thesis by (intro conjI fp s5 ret srt rec)
qed

subsection \<open>The duty cycle and sendMessage\<close>

lemma isReady_tick:
  "isReady h this (tick now w)
     = Some (ready this now, w\<lparr>echoOut := echoOut w @ ready_lines h this now\<rparr>)"
proof -
  have le: "(now - lastSend this \<le> 2000) = (unat (now - lastSend this) \<le> 2000)"
    by (simp add: word_le_nat_alt)
  have lt: "(2000 < now - lastSend this) = (2000 < unat (now - lastSend this))"
    by (simp add: word_less_nat_alt)
  have w: "w\<lparr>echoOut := echoOut w\<rparr> = w" by simp
  show ?thesis
    by (simp add: isReady_def tick_def millis_def Let_def le lt ready_def ready_lines_def echo_def
        word_le_nat_alt [of _ "SEND_DELAY h"] not_le w)
qed

lemma echo_tick: "echo x (tick t w) = tick t (echo x w)"
  by (simp add: echo_def tick_def)

lemma echo_exchange: "echo x (exchange buffer t ps w) = exchange buffer t ps (echo x w)"
  by (simp add: echo_def exchange_def)

lemma echoOut_exchange:
  "(exchange buffer t ps w)\<lparr>echoOut := x\<rparr> = exchange buffer t ps (w\<lparr>echoOut := x\<rparr>)"
  by (simp add: exchange_def)

lemma echoOut_tick: "(tick t w)\<lparr>echoOut := x\<rparr> = tick t (w\<lparr>echoOut := x\<rparr>)"
  by (simp add: tick_def)

lemma sendMessage_rejected:
  assumes "\<not> ready this now"
  shows "sendMessage h this payload (tick now w)
       = Some (False, this,
           w\<lparr>echoOut := echoOut w
                 @ Println ('' - Wisol.sendMessage: '' @ device this @ '','' @ payload)
                 # ready_lines h this now\<rparr>)"
  using assms
  by (simp add: sendMessage_def echo_tick isReady_tick) (simp add: echo_def)

lemma sendMessage_emulator:
  assumes "ready this now" and "useEmulator this"
  shows "sendMessage h this payload (tick now (tick t2 w))
       = Some (True, this\<lparr>lastSend := t2\<rparr>,
           w\<lparr>echoOut := echoOut w
                 @ Println ('' - Wisol.sendMessage: '' @ device this @ '','' @ payload)
                 # ready_lines h this now
                 @ [Println ('' - Wisol.sendBuffer: '' @ CMD_SEND_MESSAGE @ payload @ CMD_END),
                    Println []]\<rparr>)"
  using assms
  by (simp add: sendMessage_def echo_tick isReady_tick exitCommandMode_def sendBuffer_def
      echoOut_tick)
    (simp add: echo_def tick_def millis_def)

lemma echoOut_of_exchange [simp]: "echoOut (exchange buffer t ps w) = echoOut w"
  by (simp add: exchange_def)

lemma echoOut_of_tick [simp]: "echoOut (tick t w) = echoOut w"
  by (simp add: tick_def)

lemma markerPos_echoOut [simp]: "markerPos (w\<lparr>echoOut := x\<rparr>) = markerPos w"
  by simp

lemma sendMessage_sent:
  assumes rdy: "ready this now" and ne: "\<not> useEmulator this"
    and ok: "\<forall>p \<in> set ps. pass_ok (word_of_int (WISOL_COMMAND_TIMEOUT h)) t p"
    and cnt: "count_list (reads ps) END_OF_RESPONSE = 0"
    and last: "\<not> t' - t > word_of_int (WISOL_COMMAND_TIMEOUT h)" "0 < n"
    and mp: "5 \<le> length (markerPos w)"
  shows "sendMessage h this payload
           (tick now (exchange (CMD_SEND_MESSAGE @ payload @ CMD_END) t
              (ps @ [Byte t' n END_OF_RESPONSE]) (tick t2 w)))
       = Some (True, this\<lparr>lastSend := t2\<rparr>,
           echo (Println (text_of (reads ps)))
             ((after_exchange (CMD_SEND_MESSAGE @ payload @ CMD_END) (text_of (reads ps)) 1
                 (marker_offsets 0 (reads ps @ [END_OF_RESPONSE]))
                 (verdict_ok (text_of (reads ps)))
                 (w\<lparr>echoOut := echoOut w
                      @ Println ('' - Wisol.sendMessage: '' @ device this @ '','' @ payload)
                      # ready_lines h this now\<rparr>))\<lparr>markers := 1\<rparr>))"
proof -
  let ?msg = "CMD_SEND_MESSAGE @ payload @ CMD_END"
  let ?W = "exchange ?msg t (ps @ [Byte t' n END_OF_RESPONSE]) (tick t2 w)"
  let ?r = "text_of (reads ps)"
  let ?A = "after_exchange ?msg ?r 1 (marker_offsets 0 (reads ps @ [END_OF_RESPONSE]))
              (verdict_ok ?r)"
  from cnt have c1: "Suc (count_list (reads ps) END_OF_RESPONSE) = unat (1 :: byte)" by simp
  have ready: "isReady h this (echo (Println s) (tick now ?W))
      = Some (True, exchange ?msg t (ps @ [Byte t' n END_OF_RESPONSE])
                (tick t2 (w\<lparr>echoOut := echoOut w @ Println s # ready_lines h this now\<rparr>)))"
    for s
    using rdy
    by (simp add: echo_tick isReady_tick echo_exchange echoOut_exchange echoOut_tick)
      (simp add: echo_def)
  have sent: "sendBuffer this ?msg (WISOL_COMMAND_TIMEOUT h) 1 a
        (exchange ?msg t (ps @ [Byte t' n END_OF_RESPONSE]) (tick t2 (w\<lparr>echoOut := x\<rparr>)))
      = Some (True, ?r, 1, ?A (tick t2 (w\<lparr>echoOut := x\<rparr>)))" for a x
    using mp by (intro sendBuffer_arrives [OF ne ok c1 last]) (simp add: tick_def)
  have fin: "millis (echo (Println ?r) ((?A (tick t2 (w\<lparr>echoOut := x\<rparr>)))\<lparr>markers := 1\<rparr>))
      = Some (t2, echo (Println ?r) ((?A (w\<lparr>echoOut := x\<rparr>))\<lparr>markers := 1\<rparr>))" for x
    by (simp add: millis_def echo_def after_exchange_def tick_def)
  show ?thesis
    unfolding sendMessage_def Let_def
    by (subst ready) (simp add: exitCommandMode_def sent fin)
qed

lemma marker_offsets_none:
  "count_list cs END_OF_RESPONSE = 0 \<Longrightarrow> marker_offsets n cs = []"
  using length_marker_offsets [of n cs] by simp

lemma sendMessage_timed_out:
  assumes rdy: "ready this now" and ne: "\<not> useEmulator this"
    and ok: "\<forall>p \<in> set ps. pass_ok (word_of_int (WISOL_COMMAND_TIMEOUT h)) t p"
    and cnt: "count_list (reads ps) END_OF_RESPONSE = 0"
    and late: "t' - t > word_of_int (WISOL_COMMAND_TIMEOUT h)"
    and mp: "5 \<le> length (markerPos w)"
  shows "sendMessage h this payload
           (tick now (exchange (CMD_SEND_MESSAGE @ payload @ CMD_END) t ps (tick t' w)))
       = Some (False, this,
           (after_exchange (CMD_SEND_MESSAGE @ payload @ CMD_END) (text_of (reads ps)) 0 []
              (verdict_failed (text_of (reads ps)))
              (w\<lparr>echoOut := echoOut w
                   @ Println ('' - Wisol.sendMessage: '' @ device this @ '','' @ payload)
                   # ready_lines h this now\<rparr>))\<lparr>markers := 0\<rparr>)"
proof -
  let ?msg = "CMD_SEND_MESSAGE @ payload @ CMD_END"
  let ?W = "exchange ?msg t ps (tick t' w)"
  let ?r = "text_of (reads ps)"
  from cnt have c1: "count_list (reads ps) END_OF_RESPONSE < unat (1 :: byte)" by simp
  have ready: "isReady h this (echo (Println s) (tick now ?W))
      = Some (True, exchange ?msg t ps
                (tick t' (w\<lparr>echoOut := echoOut w @ Println s # ready_lines h this now\<rparr>)))"
    for s
    using rdy
    by (simp add: echo_tick isReady_tick echo_exchange echoOut_exchange echoOut_tick)
      (simp add: echo_def)
  have failed: "sendBuffer this ?msg (WISOL_COMMAND_TIMEOUT h) 1 a
        (exchange ?msg t ps (tick t' (w\<lparr>echoOut := x\<rparr>)))
      = Some (False, ?r, 0, after_exchange ?msg ?r 0 [] (verdict_failed ?r) (w\<lparr>echoOut := x\<rparr>))"
    for a x
    using sendBuffer_times_out [OF ne ok c1 late, of "w\<lparr>echoOut := x\<rparr>" ?msg a] cnt mp
    by (simp add: marker_offsets_none)
  show ?thesis
    unfolding sendMessage_def Let_def
    by (subst ready) (simp add: exitCommandMode_def failed)
qed

lemma sendMessage_frame:
  assumes "sendMessage h this payload w = Some (ok, this', w')"
  shows "this' = (if ok then this\<lparr>lastSend := lastSend this'\<rparr> else this)"
  using assms
  by (auto simp: sendMessage_def Let_def split: Option.bind_splits prod.splits if_splits)

subsection \<open>sendString\<close>

lemma written_append [simp]: "written (xs @ ys) = written xs @ written ys"
  by (induction xs rule: written.induct) simp_all

lemma written_map_Write [simp]: "written (map (\<lambda>c. Write (f c)) s) = map f s"
  by (induction s) simp_all

lemma serialOps_echo [simp]: "serialOps (echo x w) = serialOps w"
  by (simp add: echo_def)

lemma markerPos_echo [simp]: "markerPos (echo x w) = markerPos w"
  by (simp add: echo_def)

lemma toHex_char_eq: "toHex_char c = hex_pair (of_char c)"
  by (simp add: toHex_char_def concat_hex_pair)

lemma sendString_payload_eq:
  "sendString_payload str payload = payload @ concat (map (\<lambda>c. hex_pair (of_char c)) str)"
  by (induction str arbitrary: payload) (simp_all add: toHex_char_eq)

lemma length_sendString_payload: "length (sendString_payload str []) = 2 * length str"
  by (induction str) (simp_all add: sendString_payload_eq length_hex_pair)

lemma sendString_sent:
  assumes "ready this now" and "\<not> useEmulator this"
    and "\<forall>p \<in> set ps. pass_ok (word_of_int (WISOL_COMMAND_TIMEOUT h)) t p"
    and "count_list (reads ps) END_OF_RESPONSE = 0"
    and "\<not> t' - t > word_of_int (WISOL_COMMAND_TIMEOUT h)" and "0 < n"
    and "5 \<le> length (markerPos w)"
  shows "sendString h this str
           (tick now (exchange (CMD_SEND_MESSAGE @ sendString_payload str [] @ CMD_END) t
              (ps @ [Byte t' n END_OF_RESPONSE]) (tick t2 w)))
       = Some (True, this\<lparr>lastSend := t2\<rparr>,
           echo (Println (text_of (reads ps)))
             ((after_exchange (CMD_SEND_MESSAGE @ sendString_payload str [] @ CMD_END)
                 (text_of (reads ps)) 1
                 (marker_offsets 0 (reads ps @ [END_OF_RESPONSE]))
                 (verdict_ok (text_of (reads ps)))
                 ((echo (Println ('' - Wisol.sendString: '' @ str)) w)
                    \<lparr>echoOut := echoOut (echo (Println ('' - Wisol.sendString: '' @ str)) w)
                      @ Println ('' - Wisol.sendMessage: '' @ device this @ '',''
                                  @ sendString_payload str [])
                      # ready_lines h this now\<rparr>))\<lparr>markers := 1\<rparr>))"
proof -
  from assms(7) have "5 \<le> length (markerPos (echo (Println ('' - Wisol.sendString: '' @ str)) w))"
    by simp
  from sendMessage_sent [OF assms(1-6) this, of "sendString_payload str []" t2]
  show ?thesis
    unfolding sendString_def Let_def by (simp only: echo_tick echo_exchange)
qed

lemma sendString_timed_out:
  assumes "ready this now" and "\<not> useEmulator this"
    and "\<forall>p \<in> set ps. pass_ok (word_of_int (WISOL_COMMAND_TIMEOUT h)) t p"
    and "count_list (reads ps) END_OF_RESPONSE = 0"
    and "t' - t > word_of_int (WISOL_COMMAND_TIMEOUT h)"
    and "5 \<le> length (markerPos w)"
  shows "sendString h this str
           (tick now (exchange (CMD_SEND_MESSAGE @ sendString_payload str [] @ CMD_END) t ps
              (tick t' w)))
       = Some (False, this,
           (after_exchange (CMD_SEND_MESSAGE @ sendString_payload str [] @ CMD_END)
              (text_of (reads ps)) 0 []
              (verdict_failed (text_of (reads ps)))
              ((echo (Println ('' - Wisol.sendString: '' @ str)) w)
                 \<lparr>echoOut := echoOut (echo (Println ('' - Wisol.sendString: '' @ str)) w)
                   @ Println ('' - Wisol.sendMessage: '' @ device this @ '',''
                               @ sendString_payload str [])
                   # ready_lines h this now\<rparr>))\<lparr>markers := 0\<rparr>)"
proof -
  from assms(6) have "5 \<le> length (markerPos (echo (Println ('' - Wisol.sendString: '' @ str)) w))"
    by simp
  from sendMessage_timed_out [OF assms(1-5) this, of "sendString_payload str []"]
  show ?thesis
    unfolding sendString_def Let_def by (simp only: echo_tick echo_exchange)
qed

lemma sendString_transmits:
  assumes "ready this now" and "\<not> useEmulator this"
    and "\<forall>p \<in> set ps. pass_ok (word_of_int (WISOL_COMMAND_TIMEOUT h)) t p"
    and "count_list (reads ps) END_OF_RESPONSE = 0"
    and "\<not> t' - t > word_of_int (WISOL_COMMAND_TIMEOUT h)" and "0 < n"
    and "5 \<le> length (markerPos w)"
  shows "outcome (sendString h this str
           (tick now (exchange (CMD_SEND_MESSAGE @ sendString_payload str [] @ CMD_END) t
              (ps @ [Byte t' n END_OF_RESPONSE]) (tick t2 w))))
          = Some (True, this\<lparr>lastSend := t2\<rparr>)"
    and "transmitted (sendString h this str
           (tick now (exchange (CMD_SEND_MESSAGE @ sendString_payload str [] @ CMD_END) t
              (ps @ [Byte t' n END_OF_RESPONSE]) (tick t2 w))))
          = Some (written (serialOps w)
                   @ map of_char (CMD_SEND_MESSAGE @ sendString_payload str [] @ CMD_END))"
  by (simp_all add: sendString_sent [OF assms] outcome_def transmitted_def after_exchange_def
      echo_def)

subsection \<open>The claims on isReady, the emulator, sendMessage and sendString\<close>

text \<open>
  Claim C3, amended. \<open>isReady\<close> reads the clock once. It returns true when nothing was sent
  before (\<open>lastSend\<close> is 0). Otherwise it returns false if and only if at most 2000 ms have
  elapsed since the last send: the floor is inclusive, after exactly 2000 ms it is still
  too soon. When more than 2000 ms have elapsed it returns true, and prints the advisory
  while no more than \<open>SEND_DELAY\<close> has elapsed. The elapsed time is the difference of the
  two 32-bit clock readings.
\<close>

theorem isReady_floor_inclusive:
  "isReady h this (tick now w)
     = Some (lastSend this = 0 \<or> 2000 < unat (now - lastSend this),
         w\<lparr>echoOut := echoOut w @
             (if lastSend this = 0 then []
              else if unat (now - lastSend this) \<le> 2000
                then [Println ''Must wait 2 seconds before sending the next message'']
              else if unat (now - lastSend this) \<le> unat (SEND_DELAY h)
                then [Println ''Warning: Should wait 10 mins before sending the next message'']
              else [])\<rparr>)"
  by (simp only: isReady_tick ready_def ready_lines_def)

text \<open>
  Exactly at the floor, 2000 ms after the last send, \<open>isReady\<close> returns false.
\<close>

theorem isReady_false_at_floor:
  "isReady h_sim (fresh False 1000) (tick 3000 (sim [] [] []))
     = Some (False,
         (sim [] [] [])\<lparr>echoOut :=
            [Println ''Must wait 2 seconds before sending the next message'']\<rparr>)
   \<and> unat (3000 - lastSend (fresh False 1000)) = 2000"
  by (simp add: isReady_tick ready_def ready_lines_def fresh_def sim_def)

text \<open>
  One millisecond later it returns true with the advisory; it returns true in silence
  before the first send and after more than \<open>SEND_DELAY\<close>, and false below the floor.
\<close>

theorem isReady_floor_inclusive_witness:
  "isReady h_sim (fresh False 1000) (tick 3001 (sim [] [] []))
     = Some (True,
         (sim [] [] [])\<lparr>echoOut :=
            [Println ''Warning: Should wait 10 mins before sending the next message'']\<rparr>)
   \<and> isReady h_sim (fresh False 0) (tick 5 (sim [] [] [])) = Some (True, sim [] [] [])
   \<and> isReady h_sim (fresh False 1000) (tick 2999 (sim [] [] []))
     = Some (False,
         (sim [] [] [])\<lparr>echoOut :=
            [Println ''Must wait 2 seconds before sending the next message'']\<rparr>)
   \<and> isReady h_sim (fresh False 1000) (tick 601001 (sim [] [] [])) = Some (True, sim [] [] [])"
  using isReady_floor_inclusive [of h_sim "fresh False 1000" 3001 "sim [] [] []"]
    isReady_floor_inclusive [of h_sim "fresh False 0" 5 "sim [] [] []"]
    isReady_floor_inclusive [of h_sim "fresh False 1000" 2999 "sim [] [] []"]
    isReady_floor_inclusive [of h_sim "fresh False 1000" 601001 "sim [] [] []"]
  by (simp add: fresh_def sim_def h_sim_def)

text \<open>
  Claim C10. In emulator mode \<open>sendBuffer\<close> returns true at once: the response is empty,
  \<open>actualMarkerCount\<close> is the value passed in, and the world is as it was but for the one
  line on the echo port (no call on the serial port, no reading of the clock, nothing read).
  The reset of \<open>actualMarkerCount\<close> is on the other path only: without emulator mode a call
  that expects a terminator and times out with nothing received returns false with
  \<open>actualMarkerCount = 0\<close>, whatever was passed in.
\<close>

theorem sendBuffer_emulator:
  "(useEmulator this \<longrightarrow>
      sendBuffer this buffer timeout e a w
        = Some (True, [], a,
            w\<lparr>echoOut := echoOut w @ [Println ('' - Wisol.sendBuffer: '' @ buffer)]\<rparr>))
   \<and> (\<not> useEmulator this \<and> 0 < unat e \<and> t' - t > word_of_int timeout
        \<and> 5 \<le> length (markerPos w) \<longrightarrow>
      sendBuffer this buffer timeout e a (exchange buffer t [] (tick t' w))
        = Some (False, [], 0,
            after_exchange buffer [] 0 [] (verdict_failed []) w))"
proof (intro conjI impI)
  assume "useEmulator this"
  then show "sendBuffer this buffer timeout e a w
        = Some (True, [], a,
            w\<lparr>echoOut := echoOut w @ [Println ('' - Wisol.sendBuffer: '' @ buffer)]\<rparr>)"
    by (simp add: sendBuffer_def echo_def)
next
  assume "\<not> useEmulator this \<and> 0 < unat e \<and> t' - t > word_of_int timeout
        \<and> 5 \<le> length (markerPos w)"
  with sendBuffer_times_out [of this "[]" timeout t e t' w buffer a]
  show "sendBuffer this buffer timeout e a (exchange buffer t [] (tick t' w))
        = Some (False, [], 0, after_exchange buffer [] 0 [] (verdict_failed []) w)"
    by simp
qed

text \<open>
  A call with \<open>actualMarkerCount = 3\<close> on entry: 3 on return in emulator mode, 0 after a
  timeout without emulator mode.
\<close>

theorem sendBuffer_emulator_witness:
  "sendBuffer (fresh True 0) (''AT$I=10'' @ CMD_END) 2000 1 3 (sim [5] [1] [13])
     = Some (True, [], 3,
         (sim [5] [1] [13])\<lparr>echoOut := [Println ('' - Wisol.sendBuffer: AT$I=10'' @ CMD_END)]\<rparr>)
   \<and> sendBuffer (fresh False 0) (''AT$I=10'' @ CMD_END) 2000 1 3
       (exchange (''AT$I=10'' @ CMD_END) 100 [] (tick 2101 (sim [] [] [])))
     = Some (False, [], 0,
         \<lparr>clock = [], avail = [], rxq = [],
          serialOps = [Begin 9600, Flush, Listen, Write 65, Write 84, Write 36, Write 73,
                       Write 61, Write 49, Write 48, Write 13, End],
          echoOut = [Println ('' - Wisol.sendBuffer: AT$I=10'' @ CMD_END),
                     LogBuffer ''>> '' (''AT$I=10'' @ CMD_END) [] 0,
                     LogBuffer ''<< '' [] [0, 0, 0, 0, 0] 0,
                     Println '' - Wisol.sendBuffer: Error: No response''],
          markers = 0, markerPos = [0, 0, 0, 0, 0]\<rparr>)"
  using sendBuffer_emulator [of "fresh True 0" "''AT$I=10'' @ CMD_END" 2000 1 3 "sim [5] [1] [13]"]
    sendBuffer_emulator [where this = "fresh False 0" and buffer = "''AT$I=10'' @ CMD_END"
      and timeout = 2000 and e = 1 and a = 3 and t = 100 and t' = 2101 and w = "sim [] [] []"]
  by (simp add: scenario_defs)

text \<open>
  Claim C4. The driver's state is the data members of the object. Whenever \<open>sendMessage\<close>
  returns false the object is as it was, and whenever it returns true nothing but
  \<open>lastSend\<close> has changed. And it returns:

  \<^item> false, the object unchanged, when the duty cycle rejects the send;

  \<^item> false, the object unchanged, when the exchange fails: no terminator has come when the
    clock passes the timeout;

  \<^item> true, with \<open>lastSend\<close> the reading of the clock after the exchange, when the
    terminator comes in time;

  \<^item> true, with \<open>lastSend\<close> the next reading of the clock, in emulator mode.

  The file's statics \<open>markers\<close> and \<open>markerPos\<close> are the count and the positions of the last
  exchange; they are part of the world here, and \<open>markers\<close> is 0 after a failed exchange.
\<close>

theorem sendMessage_lastSend:
  "(sendMessage h this payload w = Some (ok, this', w') \<longrightarrow>
      this' = (if ok then this\<lparr>lastSend := lastSend this'\<rparr> else this))
   \<and> (\<not> ready this now \<longrightarrow>
      sendMessage h this payload (tick now w)
        = Some (False, this,
            w\<lparr>echoOut := echoOut w
                  @ Println ('' - Wisol.sendMessage: '' @ device this @ '','' @ payload)
                  # ready_lines h this now\<rparr>))
   \<and> (ready this now \<and> \<not> useEmulator this
        \<and> (\<forall>p \<in> set ps. pass_ok (word_of_int (WISOL_COMMAND_TIMEOUT h)) t p)
        \<and> count_list (reads ps) END_OF_RESPONSE = 0
        \<and> t' - t > word_of_int (WISOL_COMMAND_TIMEOUT h)
        \<and> 5 \<le> length (markerPos w) \<longrightarrow>
      sendMessage h this payload
          (tick now (exchange (CMD_SEND_MESSAGE @ payload @ CMD_END) t ps (tick t' w)))
        = Some (False, this,
            (after_exchange (CMD_SEND_MESSAGE @ payload @ CMD_END) (text_of (reads ps)) 0 []
               (verdict_failed (text_of (reads ps)))
               (w\<lparr>echoOut := echoOut w
                    @ Println ('' - Wisol.sendMessage: '' @ device this @ '','' @ payload)
                    # ready_lines h this now\<rparr>))\<lparr>markers := 0\<rparr>))
   \<and> (ready this now \<and> \<not> useEmulator this
        \<and> (\<forall>p \<in> set ps. pass_ok (word_of_int (WISOL_COMMAND_TIMEOUT h)) t p)
        \<and> count_list (reads ps) END_OF_RESPONSE = 0
        \<and> \<not> t' - t > word_of_int (WISOL_COMMAND_TIMEOUT h) \<and> 0 < n
        \<and> 5 \<le> length (markerPos w) \<longrightarrow>
      sendMessage h this payload
          (tick now (exchange (CMD_SEND_MESSAGE @ payload @ CMD_END) t
             (ps @ [Byte t' n END_OF_RESPONSE]) (tick t2 w)))
        = Some (True, this\<lparr>lastSend := t2\<rparr>,
            echo (Println (text_of (reads ps)))
              ((after_exchange (CMD_SEND_MESSAGE @ payload @ CMD_END) (text_of (reads ps)) 1
                  (marker_offsets 0 (reads ps @ [END_OF_RESPONSE]))
                  (verdict_ok (text_of (reads ps)))
                  (w\<lparr>echoOut := echoOut w
                       @ Println ('' - Wisol.sendMessage: '' @ device this @ '','' @ payload)
                       # ready_lines h this now\<rparr>))\<lparr>markers := 1\<rparr>)))
   \<and> (ready this now \<and> useEmulator this \<longrightarrow>
      sendMessage h this payload (tick now (tick t2 w))
        = Some (True, this\<lparr>lastSend := t2\<rparr>,
            w\<lparr>echoOut := echoOut w
                  @ Println ('' - Wisol.sendMessage: '' @ device this @ '','' @ payload)
                  # ready_lines h this now
                  @ [Println ('' - Wisol.sendBuffer: '' @ CMD_SEND_MESSAGE @ payload @ CMD_END),
                     Println []]\<rparr>))"
proof (intro conjI impI)
  assume "sendMessage h this payload w = Some (ok, this', w')"
  then show "this' = (if ok then this\<lparr>lastSend := lastSend this'\<rparr> else this)"
    by (rule sendMessage_frame)
next
  assume "\<not> ready this now"
  then show "sendMessage h this payload (tick now w)
        = Some (False, this,
            w\<lparr>echoOut := echoOut w
                  @ Println ('' - Wisol.sendMessage: '' @ device this @ '','' @ payload)
                  # ready_lines h this now\<rparr>)"
    by (rule sendMessage_rejected)
next
  assume "ready this now \<and> \<not> useEmulator this
        \<and> (\<forall>p \<in> set ps. pass_ok (word_of_int (WISOL_COMMAND_TIMEOUT h)) t p)
        \<and> count_list (reads ps) END_OF_RESPONSE = 0
        \<and> t' - t > word_of_int (WISOL_COMMAND_TIMEOUT h)
        \<and> 5 \<le> length (markerPos w)"
  then show "sendMessage h this payload
          (tick now (exchange (CMD_SEND_MESSAGE @ payload @ CMD_END) t ps (tick t' w)))
        = Some (False, this,
            (after_exchange (CMD_SEND_MESSAGE @ payload @ CMD_END) (text_of (reads ps)) 0 []
               (verdict_failed (text_of (reads ps)))
               (w\<lparr>echoOut := echoOut w
                    @ Println ('' - Wisol.sendMessage: '' @ device this @ '','' @ payload)
                    # ready_lines h this now\<rparr>))\<lparr>markers := 0\<rparr>)"
    by (intro sendMessage_timed_out) simp_all
next
  assume "ready this now \<and> \<not> useEmulator this
        \<and> (\<forall>p \<in> set ps. pass_ok (word_of_int (WISOL_COMMAND_TIMEOUT h)) t p)
        \<and> count_list (reads ps) END_OF_RESPONSE = 0
        \<and> \<not> t' - t > word_of_int (WISOL_COMMAND_TIMEOUT h) \<and> 0 < n
        \<and> 5 \<le> length (markerPos w)"
  then show "sendMessage h this payload
          (tick now (exchange (CMD_SEND_MESSAGE @ payload @ CMD_END) t
             (ps @ [Byte t' n END_OF_RESPONSE]) (tick t2 w)))
        = Some (True, this\<lparr>lastSend := t2\<rparr>,
            echo (Println (text_of (reads ps)))
              ((after_exchange (CMD_SEND_MESSAGE @ payload @ CMD_END) (text_of (reads ps)) 1
                  (marker_offsets 0 (reads ps @ [END_OF_RESPONSE]))
                  (verdict_ok (text_of (reads ps)))
                  (w\<lparr>echoOut := echoOut w
                       @ Println ('' - Wisol.sendMessage: '' @ device this @ '','' @ payload)
                       # ready_lines h this now\<rparr>))\<lparr>markers := 1\<rparr>))"
    by (intro sendMessage_sent) simp_all
next
  assume "ready this now \<and> useEmulator this"
  then show "sendMessage h this payload (tick now (tick t2 w))
        = Some (True, this\<lparr>lastSend := t2\<rparr>,
            w\<lparr>echoOut := echoOut w
                  @ Println ('' - Wisol.sendMessage: '' @ device this @ '','' @ payload)
                  # ready_lines h this now
                  @ [Println ('' - Wisol.sendBuffer: '' @ CMD_SEND_MESSAGE @ payload @ CMD_END),
                     Println []]\<rparr>)"
    by (intro sendMessage_emulator) simp_all
qed

text \<open>
  A driver that sent at time 1000: rejected at 3000; at 4000 the exchange takes place and
  fails when no terminator comes, and succeeds with \<open>lastSend = 4361\<close> when it comes,
  \<open>lastSend\<close> being all that has changed.
\<close>

theorem sendMessage_lastSend_witness:
  "outcome (sendMessage h_sim (fresh False 1000) ''4869'' (tick 3000 (sim [] [] [])))
     = Some (False, fresh False 1000)
   \<and> outcome (sendMessage h_sim (fresh False 1000) ''4869''
        (tick 4000 (exchange (CMD_SEND_MESSAGE @ ''4869'' @ CMD_END) 4310 [Byte 4350 1 79]
           (tick 6311 (sim [] [] [])))))
     = Some (False, fresh False 1000)
   \<and> outcome (sendMessage h_sim (fresh False 1000) ''4869''
        (tick 4000 (exchange (CMD_SEND_MESSAGE @ ''4869'' @ CMD_END) 4310
           ([Byte 4350 1 79] @ [Byte 4360 1 END_OF_RESPONSE]) (tick 4361 (sim [] [] [])))))
     = Some (True, fresh False 4361)
   \<and> outcome (sendMessage h_sim (fresh True 1000) ''4869'' (tick 4000 (tick 4001 (sim [] [] []))))
     = Some (True, fresh True 4001)
   \<and> (fresh False 1000)\<lparr>lastSend := 4361\<rparr>
     = (if True
        then (fresh False 1000)\<lparr>lastSend := lastSend ((fresh False 1000)\<lparr>lastSend := 4361\<rparr>)\<rparr>
        else fresh False 1000)"
proof -
  note inst = sendMessage_lastSend [where h = h_sim and payload = "''4869''"
      and w = "sim [] [] []"]
  have rejected: "sendMessage h_sim (fresh False 1000) ''4869'' (tick 3000 (sim [] [] []))
      = Some (False, fresh False 1000,
          (sim [] [] [])\<lparr>echoOut := echoOut (sim [] [] [])
                  @ Println ('' - Wisol.sendMessage: '' @ device (fresh False 1000) @ '','' @ ''4869'')
                  # ready_lines h_sim (fresh False 1000) 3000\<rparr>)"
    using inst [where this = "fresh False 1000" and now = 3000]
    by (simp add: ready_def fresh_def)
  have failed: "sendMessage h_sim (fresh False 1000) ''4869''
        (tick 4000 (exchange (CMD_SEND_MESSAGE @ ''4869'' @ CMD_END) 4310 [Byte 4350 1 79]
           (tick 6311 (sim [] [] []))))
      = Some (False, fresh False 1000,
            (after_exchange (CMD_SEND_MESSAGE @ ''4869'' @ CMD_END) (text_of (reads [Byte 4350 1 79]))
               0 [] (verdict_failed (text_of (reads [Byte 4350 1 79])))
               ((sim [] [] [])\<lparr>echoOut := echoOut (sim [] [] [])
                    @ Println ('' - Wisol.sendMessage: '' @ device (fresh False 1000) @ '','' @ ''4869'')
                    # ready_lines h_sim (fresh False 1000) 4000\<rparr>))\<lparr>markers := 0\<rparr>)"
    using inst [where this = "fresh False 1000" and now = 4000 and ps = "[Byte 4350 1 79]"
        and t = 4310 and t' = 6311]
    by (simp add: ready_def fresh_def sim_def h_sim_def END_OF_RESPONSE_def)
  have sent: "sendMessage h_sim (fresh False 1000) ''4869''
        (tick 4000 (exchange (CMD_SEND_MESSAGE @ ''4869'' @ CMD_END) 4310
           ([Byte 4350 1 79] @ [Byte 4360 1 END_OF_RESPONSE]) (tick 4361 (sim [] [] []))))
      = Some (True, (fresh False 1000)\<lparr>lastSend := 4361\<rparr>,
            echo (Println (text_of (reads [Byte 4350 1 79])))
              ((after_exchange (CMD_SEND_MESSAGE @ ''4869'' @ CMD_END)
                  (text_of (reads [Byte 4350 1 79])) 1
                  (marker_offsets 0 (reads [Byte 4350 1 79] @ [END_OF_RESPONSE]))
                  (verdict_ok (text_of (reads [Byte 4350 1 79])))
                  ((sim [] [] [])\<lparr>echoOut := echoOut (sim [] [] [])
                       @ Println ('' - Wisol.sendMessage: '' @ device (fresh False 1000) @ '','' @ ''4869'')
                       # ready_lines h_sim (fresh False 1000) 4000\<rparr>))\<lparr>markers := 1\<rparr>))"
    using inst [where this = "fresh False 1000" and now = 4000 and ps = "[Byte 4350 1 79]"
        and t = 4310 and t' = 4360 and n = 1 and ?t2.0 = 4361]
    by (simp add: ready_def fresh_def sim_def h_sim_def END_OF_RESPONSE_def)
  have emulated: "sendMessage h_sim (fresh True 1000) ''4869'' (tick 4000 (tick 4001 (sim [] [] [])))
      = Some (True, (fresh True 1000)\<lparr>lastSend := 4001\<rparr>,
            (sim [] [] [])\<lparr>echoOut := echoOut (sim [] [] [])
                  @ Println ('' - Wisol.sendMessage: '' @ device (fresh True 1000) @ '','' @ ''4869'')
                  # ready_lines h_sim (fresh True 1000) 4000
                  @ [Println ('' - Wisol.sendBuffer: '' @ CMD_SEND_MESSAGE @ ''4869'' @ CMD_END),
                     Println []]\<rparr>)"
    using inst [where this = "fresh True 1000" and now = 4000 and ?t2.0 = 4001]
    by (simp add: ready_def fresh_def)
  from sendMessage_lastSend [where h = h_sim and payload = "''4869''"
      and this = "fresh False 1000" and ok = True
      and this' = "(fresh False 1000)\<lparr>lastSend := 4361\<rparr>", THEN conjunct1, rule_format, OF sent]
  have frame: "(fresh False 1000)\<lparr>lastSend := 4361\<rparr>
     = (if True
        then (fresh False 1000)\<lparr>lastSend := lastSend ((fresh False 1000)\<lparr>lastSend := 4361\<rparr>)\<rparr>
        else fresh False 1000)" .
  have outcomes: "outcome (sendMessage h_sim (fresh False 1000) ''4869'' (tick 3000 (sim [] [] [])))
       = Some (False, fresh False 1000)"
     "outcome (sendMessage h_sim (fresh False 1000) ''4869''
        (tick 4000 (exchange (CMD_SEND_MESSAGE @ ''4869'' @ CMD_END) 4310 [Byte 4350 1 79]
           (tick 6311 (sim [] [] [])))))
       = Some (False, fresh False 1000)"
     "outcome (sendMessage h_sim (fresh False 1000) ''4869''
        (tick 4000 (exchange (CMD_SEND_MESSAGE @ ''4869'' @ CMD_END) 4310
           ([Byte 4350 1 79] @ [Byte 4360 1 END_OF_RESPONSE]) (tick 4361 (sim [] [] [])))))
       = Some (True, fresh False 4361)"
     "outcome (sendMessage h_sim (fresh True 1000) ''4869'' (tick 4000 (tick 4001 (sim [] [] []))))
       = Some (True, fresh True 4001)"
    using rejected failed sent emulated by (simp_all add: outcome_def fresh_def)
  show ?thesis by (intro conjI outcomes frame)
qed

text \<open>
  Claim C6, amended. \<open>sendString\<close> encodes every character of its text as two hex digits
  and calls \<open>sendMessage\<close> with the whole encoding, \<open>2 * length\<close> digits. It enforces no
  limit: a text of any length is transmitted whole, as \<open>AT$SF=\<close>, its hex digits and the
  terminator, and the call succeeds when the terminator comes back in time. Keeping to
  12 characters is left to the caller.
\<close>

theorem sendString_sends_whole_text:
  "sendString_payload str [] = concat (map (\<lambda>c. hex_pair (of_char c)) str)
   \<and> length (sendString_payload str []) = 2 * length str
   \<and> sendString h this str w
       = sendMessage h this (sendString_payload str [])
           (echo (Println ('' - Wisol.sendString: '' @ str)) w)
   \<and> (ready this now \<and> \<not> useEmulator this
        \<and> \<not> t' - t > word_of_int (WISOL_COMMAND_TIMEOUT h) \<and> 0 < n
        \<and> 5 \<le> length (markerPos w) \<longrightarrow>
      outcome (sendString h this str
          (tick now (exchange (CMD_SEND_MESSAGE @ sendString_payload str [] @ CMD_END) t
             [Byte t' n END_OF_RESPONSE] (tick t2 w))))
        = Some (True, this\<lparr>lastSend := t2\<rparr>)
      \<and> transmitted (sendString h this str
          (tick now (exchange (CMD_SEND_MESSAGE @ sendString_payload str [] @ CMD_END) t
             [Byte t' n END_OF_RESPONSE] (tick t2 w))))
        = Some (written (serialOps w)
                 @ map of_char (CMD_SEND_MESSAGE
                     @ concat (map (\<lambda>c. hex_pair (of_char c)) str) @ CMD_END)))"
proof (intro conjI impI)
  show p: "sendString_payload str [] = concat (map (\<lambda>c. hex_pair (of_char c)) str)"
    by (simp add: sendString_payload_eq)
  show "length (sendString_payload str []) = 2 * length str"
    by (rule length_sendString_payload)
  show "sendString h this str w
       = sendMessage h this (sendString_payload str [])
           (echo (Println ('' - Wisol.sendString: '' @ str)) w)"
    by (simp add: sendString_def Let_def)
  assume a: "ready this now \<and> \<not> useEmulator this
        \<and> \<not> t' - t > word_of_int (WISOL_COMMAND_TIMEOUT h) \<and> 0 < n
        \<and> 5 \<le> length (markerPos w)"
  then have "outcome (sendString h this str
          (tick now (exchange (CMD_SEND_MESSAGE @ sendString_payload str [] @ CMD_END) t
             ([] @ [Byte t' n END_OF_RESPONSE]) (tick t2 w))))
        = Some (True, this\<lparr>lastSend := t2\<rparr>)"
    by (intro sendString_transmits(1)) simp_all
  then show "outcome (sendString h this str
          (tick now (exchange (CMD_SEND_MESSAGE @ sendString_payload str [] @ CMD_END) t
             [Byte t' n END_OF_RESPONSE] (tick t2 w))))
        = Some (True, this\<lparr>lastSend := t2\<rparr>)"
    by simp
  from a have "transmitted (sendString h this str
          (tick now (exchange (CMD_SEND_MESSAGE @ sendString_payload str [] @ CMD_END) t
             ([] @ [Byte t' n END_OF_RESPONSE]) (tick t2 w))))
        = Some (written (serialOps w)
                 @ map of_char (CMD_SEND_MESSAGE @ sendString_payload str [] @ CMD_END))"
    by (intro sendString_transmits(2)) simp_all
  then show "transmitted (sendString h this str
          (tick now (exchange (CMD_SEND_MESSAGE @ sendString_payload str [] @ CMD_END) t
             [Byte t' n END_OF_RESPONSE] (tick t2 w))))
        = Some (written (serialOps w)
                 @ map of_char (CMD_SEND_MESSAGE
                     @ concat (map (\<lambda>c. hex_pair (of_char c)) str) @ CMD_END))"
    by (simp add: sendString_payload_eq)
qed

lemma hex_pair_of_char:
  "hex_pair (of_char c)
     = [''0123456789abcdef'' ! (of_char c div 16), ''0123456789abcdef'' ! (of_char c mod 16)]"
proof -
  have "(of_char c :: byte) = of_nat (of_char c)" by (simp add: of_nat_of_char)
  then have "unat (of_char c :: byte) = of_char c mod 256" by (simp only: unat_of_nat) simp
  then show ?thesis by (simp add: hex_pair_def)
qed

text \<open>
  A text of 13 characters is sent with its 26 hex digits, and the call returns true.
\<close>

theorem sendString_thirteen:
  "transmitted (sendString h_sim (fresh False 0) ''ABCDEFGHIJKLM''
      (tick 1000 (exchange (''AT$SF=4142434445464748494a4b4c4d'' @ [CHR 0x0D]) 1530
         [Byte 1570 1 13] (tick 1571 (sim [] [] [])))))
     = Some (map of_char (''AT$SF=4142434445464748494a4b4c4d'' @ [CHR 0x0D]))
   \<and> outcome (sendString h_sim (fresh False 0) ''ABCDEFGHIJKLM''
      (tick 1000 (exchange (''AT$SF=4142434445464748494a4b4c4d'' @ [CHR 0x0D]) 1530
         [Byte 1570 1 13] (tick 1571 (sim [] [] [])))))
     = Some (True, fresh False 1571)
   \<and> length ''ABCDEFGHIJKLM'' = 13
   \<and> length ''4142434445464748494a4b4c4d'' = 26"
proof -
  have c: "ready (fresh False 0) 1000" "\<not> useEmulator (fresh False 0)"
    "\<forall>p \<in> set []. pass_ok (word_of_int (WISOL_COMMAND_TIMEOUT h_sim)) 1530 p"
    "count_list (reads []) END_OF_RESPONSE = 0"
    "\<not> 1570 - 1530 > (word_of_int (WISOL_COMMAND_TIMEOUT h_sim) :: ulong)" "0 < (1::int)"
    "5 \<le> length (markerPos (sim [] [] []))"
    by (simp_all add: ready_def fresh_def h_sim_def sim_def)
  from sendString_transmits [OF c, of "''ABCDEFGHIJKLM''" 1571]
  show ?thesis
    by (simp add: toHex_char_eq hex_pair_of_char hex_pair_def CMD_SEND_MESSAGE_def CMD_END_def
        END_OF_RESPONSE_def sim_def fresh_def)
qed

text \<open>
  A text of 14 characters: 28 hex digits are transmitted.
\<close>

theorem sendString_sends_whole_text_witness:
  "outcome (sendString h_sim (fresh False 0) ''ABCDEFGHIJKLMN''
      (tick 1000 (exchange (CMD_SEND_MESSAGE @ sendString_payload ''ABCDEFGHIJKLMN'' [] @ CMD_END)
         1530 [Byte 1570 1 END_OF_RESPONSE] (tick 1571 (sim [] [] [])))))
     = Some (True, fresh False 1571)
   \<and> transmitted (sendString h_sim (fresh False 0) ''ABCDEFGHIJKLMN''
      (tick 1000 (exchange (CMD_SEND_MESSAGE @ sendString_payload ''ABCDEFGHIJKLMN'' [] @ CMD_END)
         1530 [Byte 1570 1 END_OF_RESPONSE] (tick 1571 (sim [] [] [])))))
     = Some (map of_char (''AT$SF=4142434445464748494a4b4c4d4e'' @ [CHR 0x0D]))
   \<and> length (sendString_payload ''ABCDEFGHIJKLMN'' []) = 28"
  using sendString_sends_whole_text [where str = "''ABCDEFGHIJKLMN''" and h = h_sim
      and this = "fresh False 0" and now = 1000 and t = 1530 and t' = 1570 and n = 1
      and ?t2.0 = 1571 and w = "sim [] [] []"]
  by (simp add: ready_def fresh_def h_sim_def sim_def toHex_char_eq hex_pair_of_char hex_pair_def
      CMD_SEND_MESSAGE_def CMD_END_def)

text \<open>
  Claim C9. The payload of \<open>Hi\<close> is \<open>4869\<close> and the command buffer is \<open>AT$SF=4869\<close> followed
  by the terminator. When the channel replies with a single terminator within the timeout,
  \<open>sendString\<close> transmits exactly this buffer and returns true, as does \<open>sendMessage\<close> with
  the payload \<open>4869\<close>. One terminator is expected: when none has come and the clock passes
  the timeout, \<open>sendString\<close> returns false.
\<close>

theorem sendString_Hi:
  "sendString_payload ''Hi'' [] = ''4869''
   \<and> CMD_SEND_MESSAGE @ sendString_payload ''Hi'' [] @ CMD_END = ''AT$SF=4869'' @ [CHR 0x0D]
   \<and> (ready this now \<and> \<not> useEmulator this
        \<and> \<not> t' - t > word_of_int (WISOL_COMMAND_TIMEOUT h) \<and> 0 < n
        \<and> 5 \<le> length (markerPos w) \<longrightarrow>
      outcome (sendString h this ''Hi''
          (tick now (exchange (''AT$SF=4869'' @ [CHR 0x0D]) t [Byte t' n 13] (tick t2 w))))
        = Some (True, this\<lparr>lastSend := t2\<rparr>)
      \<and> transmitted (sendString h this ''Hi''
          (tick now (exchange (''AT$SF=4869'' @ [CHR 0x0D]) t [Byte t' n 13] (tick t2 w))))
        = Some (written (serialOps w) @ map of_char (''AT$SF=4869'' @ [CHR 0x0D]))
      \<and> outcome (sendMessage h this ''4869''
          (tick now (exchange (''AT$SF=4869'' @ [CHR 0x0D]) t [Byte t' n 13] (tick t2 w))))
        = Some (True, this\<lparr>lastSend := t2\<rparr>))
   \<and> (ready this now \<and> \<not> useEmulator this
        \<and> (\<forall>p \<in> set ps. pass_ok (word_of_int (WISOL_COMMAND_TIMEOUT h)) t p)
        \<and> count_list (reads ps) 13 = 0
        \<and> t' - t > word_of_int (WISOL_COMMAND_TIMEOUT h)
        \<and> 5 \<le> length (markerPos w) \<longrightarrow>
      outcome (sendString h this ''Hi''
          (tick now (exchange (''AT$SF=4869'' @ [CHR 0x0D]) t ps (tick t' w))))
        = Some (False, this))"
proof (intro conjI impI)
  show p: "sendString_payload ''Hi'' [] = ''4869''"
    by (simp add: sendString_payload_eq hex_pair_of_char)
  then show m: "CMD_SEND_MESSAGE @ sendString_payload ''Hi'' [] @ CMD_END
        = ''AT$SF=4869'' @ [CHR 0x0D]"
    by (simp add: CMD_SEND_MESSAGE_def CMD_END_def)
  assume a: "ready this now \<and> \<not> useEmulator this
        \<and> \<not> t' - t > word_of_int (WISOL_COMMAND_TIMEOUT h) \<and> 0 < n
        \<and> 5 \<le> length (markerPos w)"
  then have c: "ready this now" "\<not> useEmulator this"
    "\<forall>p \<in> set []. pass_ok (word_of_int (WISOL_COMMAND_TIMEOUT h)) t p"
    "count_list (reads []) END_OF_RESPONSE = 0"
    "\<not> t' - t > word_of_int (WISOL_COMMAND_TIMEOUT h)" "0 < n"
    "5 \<le> length (markerPos w)"
    by simp_all
  from sendString_transmits [OF c, of "''Hi''" t2]
  show "outcome (sendString h this ''Hi''
          (tick now (exchange (''AT$SF=4869'' @ [CHR 0x0D]) t [Byte t' n 13] (tick t2 w))))
        = Some (True, this\<lparr>lastSend := t2\<rparr>)"
    and "transmitted (sendString h this ''Hi''
          (tick now (exchange (''AT$SF=4869'' @ [CHR 0x0D]) t [Byte t' n 13] (tick t2 w))))
        = Some (written (serialOps w) @ map of_char (''AT$SF=4869'' @ [CHR 0x0D]))"
    by (simp_all only: m append_Nil END_OF_RESPONSE_def)
  from sendMessage_sent [OF c, of "''4869''" t2] m [unfolded p]
  show "outcome (sendMessage h this ''4869''
          (tick now (exchange (''AT$SF=4869'' @ [CHR 0x0D]) t [Byte t' n 13] (tick t2 w))))
        = Some (True, this\<lparr>lastSend := t2\<rparr>)"
    by (simp add: outcome_def END_OF_RESPONSE_def)
next
  assume "ready this now \<and> \<not> useEmulator this
        \<and> (\<forall>p \<in> set ps. pass_ok (word_of_int (WISOL_COMMAND_TIMEOUT h)) t p)
        \<and> count_list (reads ps) 13 = 0
        \<and> t' - t > word_of_int (WISOL_COMMAND_TIMEOUT h)
        \<and> 5 \<le> length (markerPos w)"
  then have c: "ready this now" "\<not> useEmulator this"
    "\<forall>p \<in> set ps. pass_ok (word_of_int (WISOL_COMMAND_TIMEOUT h)) t p"
    "count_list (reads ps) END_OF_RESPONSE = 0"
    "t' - t > word_of_int (WISOL_COMMAND_TIMEOUT h)"
    "5 \<le> length (markerPos w)"
    by (simp_all add: END_OF_RESPONSE_def)
  have m: "CMD_SEND_MESSAGE @ sendString_payload ''Hi'' [] @ CMD_END
        = ''AT$SF=4869'' @ [CHR 0x0D]"
    by (simp add: sendString_payload_eq hex_pair_of_char CMD_SEND_MESSAGE_def CMD_END_def)
  from sendString_timed_out [OF c, of "''Hi''"]
  have "outcome (sendString h this ''Hi''
          (tick now (exchange (CMD_SEND_MESSAGE @ sendString_payload ''Hi'' [] @ CMD_END) t ps
             (tick t' w))))
        = Some (False, this)"
    by (simp add: outcome_def)
  then show "outcome (sendString h this ''Hi''
          (tick now (exchange (''AT$SF=4869'' @ [CHR 0x0D]) t ps (tick t' w))))
        = Some (False, this)"
    by (simp only: m)
qed

text \<open>
  At concrete times: success on a reply of one terminator, failure when \<open>OK\<close> comes
  without a terminator.
\<close>

theorem sendString_Hi_witness:
  "outcome (sendString h_sim (fresh False 0) ''Hi''
      (tick 1000 (exchange (''AT$SF=4869'' @ [CHR 0x0D]) 1310 [Byte 1350 1 13]
         (tick 1351 (sim [] [] [])))))
     = Some (True, fresh False 1351)
   \<and> transmitted (sendString h_sim (fresh False 0) ''Hi''
      (tick 1000 (exchange (''AT$SF=4869'' @ [CHR 0x0D]) 1310 [Byte 1350 1 13]
         (tick 1351 (sim [] [] [])))))
     = Some (map of_char (''AT$SF=4869'' @ [CHR 0x0D]))
   \<and> outcome (sendMessage h_sim (fresh False 0) ''4869''
      (tick 1000 (exchange (''AT$SF=4869'' @ [CHR 0x0D]) 1310 [Byte 1350 1 13]
         (tick 1351 (sim [] [] [])))))
     = Some (True, fresh False 1351)
   \<and> outcome (sendString h_sim (fresh False 0) ''Hi''
      (tick 1000 (exchange (''AT$SF=4869'' @ [CHR 0x0D]) 1310 [Byte 1350 1 79, Byte 1360 1 75]
         (tick 3311 (sim [] [] [])))))
     = Some (False, fresh False 0)"
  using sendString_Hi [where h = h_sim and this = "fresh False 0" and now = 1000 and t = 1310
      and t' = 1350 and n = 1 and ?t2.0 = 1351 and w = "sim [] [] []" and ps = "[]"]
    sendString_Hi [where h = h_sim and this = "fresh False 0" and now = 1000 and t = 1310
      and t' = 3311 and w = "sim [] [] []" and ps = "[Byte 1350 1 79, Byte 1360 1 75]"]
  by (simp add: ready_def fresh_def h_sim_def sim_def)

section \<open>The claims on the hex codec\<close>

lemma unat_of_char: "unat (of_char c :: byte) = of_char c"
proof -
  have "(of_char c :: byte) = of_nat (of_char c)" by (simp add: of_nat_of_char)
  then have "unat (of_char c :: byte) = of_char c mod 256" by (simp only: unat_of_nat) simp
  then show ?thesis by simp
qed

lemma toHex_char_digits:
  "toHex_char c = [utoa_digit (of_char c div 16), utoa_digit (of_char c mod 16)]"
  by (simp add: toHex_char_def concat_hex_eq unat_of_char)

text \<open>
  Claim C2. For every byte \<open>b\<close>, \<open>toHex((char) b)\<close> has two characters, and decoding them,
  \<open>16 * hexDigitToDecimal(first) + hexDigitToDecimal(second)\<close>, gives \<open>b\<close> again; so does
  decoding the two characters in upper case.
\<close>

theorem hex_round_trip:
  "length (toHex_char (char_of (unat (b::byte)))) = 2
   \<and> decode_hex_pair (toHex_char (char_of (unat b))) = Some (unat b)
   \<and> decode_hex_pair (map toupper (toHex_char (char_of (unat b)))) = Some (unat b)"
proof -
  have hi: "unat b div 16 < 16" by (rule unat_byte_div16)
  have lo: "unat b mod 16 < 16" by simp
  have b: "unat b < 256" by (rule unat_byte_less)
  have u: "unat (of_nat (unat b div 16) :: byte) = unat b div 16"
    "unat (of_nat (unat b mod 16) :: byte) = unat b mod 16"
    using hi by (simp_all add: unat_of_nat)
  have d: "toHex_char (char_of (unat b))
           = [utoa_digit (unat b div 16), utoa_digit (unat b mod 16)]"
    using b by (simp add: toHex_char_digits)
  show ?thesis
    using hi lo
    by (simp add: d hexDigitToDecimal_utoa_digit hexDigitToDecimal_toupper u)
qed

text \<open>
  Claim C7. Every \<open>toHex\<close> of a number is the concatenation, in the order of the bytes in
  memory, of two lowercase hex digits for each byte scanned, zero-padded: 2 characters
  for a \<open>char\<close>, 4 for an \<open>int\<close> or \<open>unsigned int\<close>, 8 for a \<open>long\<close>, \<open>unsigned long\<close>,
  \<open>float\<close> or \<open>double\<close>.
\<close>

theorem toHex_two_digits_per_byte:
  "toHex_char c = hex_pair (of_char c) \<and> length (toHex_char c) = 2
   \<and> toHex_int i = concat (map hex_pair (mem16 i)) \<and> length (toHex_int i) = 4
   \<and> toHex_unsigned_int ui = concat (map hex_pair (mem16 ui)) \<and> length (toHex_unsigned_int ui) = 4
   \<and> toHex_long l = concat (map hex_pair (mem32 l)) \<and> length (toHex_long l) = 8
   \<and> toHex_unsigned_long ul = concat (map hex_pair (mem32 ul)) \<and> length (toHex_unsigned_long ul) = 8
   \<and> toHex_float f = concat (map hex_pair (mem32 f)) \<and> length (toHex_float f) = 8
   \<and> toHex_double d = concat (map hex_pair (mem32 d)) \<and> length (toHex_double d) = 8"
  by (simp add: toHex_char_eq length_hex_pair toHex_int_def toHex_unsigned_int_def toHex_long_def
      toHex_unsigned_long_def toHex_float_def toHex_double_def toHex_scan_eq mem16_def mem32_def)

text \<open>
  Claim C8. \<open>hexDigitToDecimal\<close> maps \<open>'0'..'9'\<close> to 0..9, \<open>'a'..'z'\<close> to 10..35 and
  \<open>'A'..'Z'\<close> to 10..35, printing nothing. For every other character it returns 0 and
  prints one line of diagnostics; as \<open>'0'\<close> gives 0 too, the result alone does not tell
  an invalid character from a zero.
\<close>

theorem hexDigitToDecimal_table:
  "(48 \<le> (of_char ch :: nat) \<and> (of_char ch :: nat) \<le> 57 \<longrightarrow>
      hexDigitToDecimal ch = (of_nat (of_char ch - 48), [])
      \<and> unat (fst (hexDigitToDecimal ch)) = of_char ch - 48)
   \<and> (97 \<le> (of_char ch :: nat) \<and> (of_char ch :: nat) \<le> 122 \<longrightarrow>
      hexDigitToDecimal ch = (of_nat (of_char ch - 97 + 10), [])
      \<and> unat (fst (hexDigitToDecimal ch)) = of_char ch - 97 + 10)
   \<and> (65 \<le> (of_char ch :: nat) \<and> (of_char ch :: nat) \<le> 90 \<longrightarrow>
      hexDigitToDecimal ch = (of_nat (of_char ch - 65 + 10), [])
      \<and> unat (fst (hexDigitToDecimal ch)) = of_char ch - 65 + 10)
   \<and> (\<not> (48 \<le> (of_char ch :: nat) \<and> (of_char ch :: nat) \<le> 57)
      \<and> \<not> (97 \<le> (of_char ch :: nat) \<and> (of_char ch :: nat) \<le> 122)
      \<and> \<not> (65 \<le> (of_char ch :: nat) \<and> (of_char ch :: nat) \<le> 90) \<longrightarrow>
      hexDigitToDecimal ch
        = (0, [Println ('' - Wisol.hexDigitToDecimal: Error: Invalid hex digit '' @ [ch])]))
   \<and> fst (hexDigitToDecimal CHR ''0'') = 0"
proof -
  define n :: nat where "n = of_char ch"
  have n: "n < 256" by (simp add: n_def)
  have v: "char_val ch = (if n < 128 then int n else int n - 256)"
    by (simp add: char_val_def n_def)
  have w: "k \<le> n \<Longrightarrow> (word_of_int (int n - int k) :: byte) = of_nat (n - k)" for k
    by (simp add: of_nat_diff)
  have w10: "k \<le> n \<Longrightarrow> (word_of_int (int n - int k + 10) :: byte) = of_nat (n - k + 10)" for k
    by (simp add: of_nat_diff)
  have u: "m < 256 \<Longrightarrow> unat (of_nat m :: byte) = m" for m
    by (simp add: unat_of_nat)
  have d0: "48 \<le> n \<and> n \<le> 57 \<longrightarrow> hexDigitToDecimal ch = (word_of_int (int n - int 48), [])"
    using n by (simp add: hexDigitToDecimal_def v n_def [symmetric])
  have digit: "48 \<le> n \<and> n \<le> 57 \<longrightarrow>
      hexDigitToDecimal ch = (of_nat (n - 48), []) \<and> unat (fst (hexDigitToDecimal ch)) = n - 48"
  proof
    assume a: "48 \<le> n \<and> n \<le> 57"
    with d0 w [of 48] have "hexDigitToDecimal ch = (of_nat (n - 48), [])" by (simp only:)
    then have h: "hexDigitToDecimal ch = (of_nat (n - 48), [])" .
    from a have lt: "n - 48 < 256" by arith
    show "hexDigitToDecimal ch = (of_nat (n - 48), [])
      \<and> unat (fst (hexDigitToDecimal ch)) = n - 48"
      by (simp only: h fst_conv u [OF lt])
  qed
  have l0: "97 \<le> n \<and> n \<le> 122 \<longrightarrow>
      hexDigitToDecimal ch = (word_of_int (int n - int 97 + 10), [])"
    using n by (simp add: hexDigitToDecimal_def v n_def [symmetric])
  have lower: "97 \<le> n \<and> n \<le> 122 \<longrightarrow>
      hexDigitToDecimal ch = (of_nat (n - 97 + 10), [])
      \<and> unat (fst (hexDigitToDecimal ch)) = n - 97 + 10"
  proof
    assume a: "97 \<le> n \<and> n \<le> 122"
    with l0 w10 [of 97] have "hexDigitToDecimal ch = (of_nat (n - 97 + 10), [])" by (simp only:)
    then have h: "hexDigitToDecimal ch = (of_nat (n - 97 + 10), [])" .
    from a have lt: "n - 97 + 10 < 256" by arith
    show "hexDigitToDecimal ch = (of_nat (n - 97 + 10), [])
      \<and> unat (fst (hexDigitToDecimal ch)) = n - 97 + 10"
      by (simp only: h fst_conv u [OF lt])
  qed
  have u0: "65 \<le> n \<and> n \<le> 90 \<longrightarrow>
      hexDigitToDecimal ch = (word_of_int (int n - int 65 + 10), [])"
    using n by (simp add: hexDigitToDecimal_def v n_def [symmetric])
  have upper: "65 \<le> n \<and> n \<le> 90 \<longrightarrow>
      hexDigitToDecimal ch = (of_nat (n - 65 + 10), [])
      \<and> unat (fst (hexDigitToDecimal ch)) = n - 65 + 10"
  proof
    assume a: "65 \<le> n \<and> n \<le> 90"
    with u0 w10 [of 65] have "hexDigitToDecimal ch = (of_nat (n - 65 + 10), [])" by (simp only:)
    then have h: "hexDigitToDecimal ch = (of_nat (n - 65 + 10), [])" .
    from a have lt: "n - 65 + 10 < 256" by arith
    show "hexDigitToDecimal ch = (of_nat (n - 65 + 10), [])
      \<and> unat (fst (hexDigitToDecimal ch)) = n - 65 + 10"
      by (simp only: h fst_conv u [OF lt])
  qed
  have other: "\<not> (48 \<le> n \<and> n \<le> 57) \<and> \<not> (97 \<le> n \<and> n \<le> 122) \<and> \<not> (65 \<le> n \<and> n \<le> 90) \<longrightarrow>
      hexDigitToDecimal ch
        = (0, [Println ('' - Wisol.hexDigitToDecimal: Error: Invalid hex digit '' @ [ch])])"
    using n by (auto simp: hexDigitToDecimal_def v)
  have zero: "fst (hexDigitToDecimal CHR ''0'') = 0"
    by (simp add: hexDigitToDecimal_def char_val_def)
  from digit lower upper other zero show ?thesis
    unfolding n_def by blast
qed

text \<open>
  Some digits and letters, an invalid character and a character above 127.
\<close>

theorem hexDigitToDecimal_table_witness:
  "hexDigitToDecimal CHR ''7'' = (7, [])
   \<and> hexDigitToDecimal CHR ''f'' = (15, [])
   \<and> hexDigitToDecimal CHR ''z'' = (35, [])
   \<and> hexDigitToDecimal CHR ''F'' = (15, [])
   \<and> hexDigitToDecimal CHR ''Z'' = (35, [])
   \<and> hexDigitToDecimal CHR ''$''
       = (0, [Println '' - Wisol.hexDigitToDecimal: Error: Invalid hex digit $''])
   \<and> hexDigitToDecimal (CHR 0xE9)
       = (0, [Println ('' - Wisol.hexDigitToDecimal: Error: Invalid hex digit '' @ [CHR 0xE9])])
   \<and> fst (hexDigitToDecimal CHR ''0'') = fst (hexDigitToDecimal CHR ''$'')"
  using hexDigitToDecimal_table [of "CHR ''7''"] hexDigitToDecimal_table [of "CHR ''f''"]
    hexDigitToDecimal_table [of "CHR ''z''"] hexDigitToDecimal_table [of "CHR ''F''"]
    hexDigitToDecimal_table [of "CHR ''Z''"] hexDigitToDecimal_table [of "CHR ''$''"]
    hexDigitToDecimal_table [of "CHR 0xE9"]
  by simp

end
